theory Spec2Isabelle
  imports Complex_Main
begin

section \<open>Python strings\<close>

text \<open>
  A Python \<open>str\<close> is a sequence of Unicode code points. It is modelled as a list of
  code points (natural numbers); \<open>py_str\<close> turns an Isabelle string literal into one.
\<close>

type_synonym pystr = "nat list"

definition py_str :: "string \<Rightarrow> pystr" where
  "py_str s = map of_char s"

text \<open>
  The code points that \<open>str.strip()\<close> without argument removes: those for which
  \<open>str.isspace\<close> holds.
\<close>

definition isspace :: "nat \<Rightarrow> bool" where
  "isspace c \<longleftrightarrow>
     (9 \<le> c \<and> c \<le> 13) \<or> (28 \<le> c \<and> c \<le> 32) \<or> c = 133 \<or> c = 160 \<or> c = 5760 \<or>
     (8192 \<le> c \<and> c \<le> 8202) \<or> c = 8232 \<or> c = 8233 \<or> c = 8239 \<or> c = 8287 \<or> c = 12288"

definition strip :: "pystr \<Rightarrow> pystr" where
  "strip s = rev (dropWhile isspace (rev (dropWhile isspace s)))"

section \<open>dedup\_results.py\<close>

text \<open>
  The specification's Record: a dictionary from field names to strings. This is what
  \<open>csv.DictReader\<close> yields for a line with as many cells as the header. The loop is
  modelled on such rows first; the rows the reader yields for shorter and longer lines,
  and what the loop does on them, follow below.
\<close>

type_synonym row = "pystr \<rightharpoonup> pystr"

text \<open>\<open>row.get(name, "")\<close>\<close>

definition get_field :: "row \<Rightarrow> pystr \<Rightarrow> pystr" where
  "get_field r name = (case r name of None \<Rightarrow> [] | Some v \<Rightarrow> v)"

text \<open>
  The key derivation written inline in the loop of \<open>dedup\<close> (lines 39 to 52). The key is
  a Python string; \<open>None\<close> stands for the branch that counts the row under
  \<open>rows_no_key\<close> and continues with the next row.
\<close>

definition derive_key :: "row \<Rightarrow> pystr option" where
  "derive_key r =
     (let data_id = strip (get_field r (py_str ''data_id'')) in
      if data_id \<noteq> [] then Some (py_str ''did:'' @ data_id)
      else
        let title = strip (get_field r (py_str ''title''));
            lat = strip (get_field r (py_str ''latitude''));
            lon = strip (get_field r (py_str ''longitude''))
        in if title \<noteq> [] \<and> lat \<noteq> [] \<and> lon \<noteq> []
           then Some (py_str ''tloc:'' @ title @ py_str ''|'' @ lat @ py_str ''|'' @ lon)
           else None)"

record dedup_state =
  seen :: "pystr set"
  rows_total :: int
  rows_kept :: int
  rows_dup :: int
  rows_no_key :: int
  kept_rows :: "row list"

definition dedup_init :: dedup_state where
  "dedup_init = \<lparr>seen = {}, rows_total = 0, rows_kept = 0, rows_dup = 0, rows_no_key = 0,
     kept_rows = []\<rparr>"

text \<open>One iteration of \<open>for row in reader\<close>.\<close>

definition dedup_row :: "bool \<Rightarrow> dedup_state \<Rightarrow> row \<Rightarrow> dedup_state" where
  "dedup_row stats_only st r =
     (let st = st\<lparr>rows_total := rows_total st + 1\<rparr> in
      case derive_key r of
        None \<Rightarrow> st\<lparr>rows_no_key := rows_no_key st + 1\<rparr>
      | Some key \<Rightarrow>
          if key \<in> seen st then st\<lparr>rows_dup := rows_dup st + 1\<rparr>
          else
            let st = st\<lparr>seen := insert key (seen st), rows_kept := rows_kept st + 1\<rparr>
            in if \<not> stats_only then st\<lparr>kept_rows := kept_rows st @ [r]\<rparr> else st)"

definition dedup_rows :: "bool \<Rightarrow> row list \<Rightarrow> dedup_state" where
  "dedup_rows stats_only rows = foldl (dedup_row stats_only) dedup_init rows"

subsection \<open>The rows the reader yields\<close>

text \<open>
  \<open>csv.DictReader\<close> yields one dictionary per line. The field names of the header are
  mapped to the cells of the line. For a line with fewer cells than the header the
  remaining field names are mapped to \<open>None\<close>; for a line with more cells the key \<open>None\<close>
  is mapped to the list of the surplus cells. A key is modelled as \<open>Some name\<close> for a
  field name and \<open>None\<close> for the key \<open>None\<close>.
\<close>

datatype pyval = Str pystr | PyNone | PyList "pystr list"

type_synonym reader_row = "pystr option \<rightharpoonup> pyval"

datatype dedup_error = SystemExit int | AttributeError | ValueError

text \<open>
  \<open>row.get(name, "").strip()\<close>: the default is taken only when the key is absent, and
  only a string has the method \<open>strip\<close>.
\<close>

definition get_stripped :: "reader_row \<Rightarrow> pystr \<Rightarrow> dedup_error + pystr" where
  "get_stripped r name =
     (case r (Some name) of
        None \<Rightarrow> Inr (strip [])
      | Some (Str s) \<Rightarrow> Inr (strip s)
      | Some PyNone \<Rightarrow> Inl AttributeError
      | Some (PyList l) \<Rightarrow> Inl AttributeError)"

text \<open>Lines 39 to 52 on a row of the reader, statement by statement.\<close>

definition reader_key :: "reader_row \<Rightarrow> dedup_error + pystr option" where
  "reader_key r =
     (case get_stripped r (py_str ''data_id'') of
        Inl e \<Rightarrow> Inl e
      | Inr data_id \<Rightarrow>
          if data_id \<noteq> [] then Inr (Some (py_str ''did:'' @ data_id))
          else
            (case get_stripped r (py_str ''title'') of
               Inl e \<Rightarrow> Inl e
             | Inr title \<Rightarrow>
                 (case get_stripped r (py_str ''latitude'') of
                    Inl e \<Rightarrow> Inl e
                  | Inr lat \<Rightarrow>
                      (case get_stripped r (py_str ''longitude'') of
                         Inl e \<Rightarrow> Inl e
                       | Inr lon \<Rightarrow>
                           if title \<noteq> [] \<and> lat \<noteq> [] \<and> lon \<noteq> []
                           then Inr (Some (py_str ''tloc:'' @ title @ py_str ''|'' @ lat
                                  @ py_str ''|'' @ lon))
                           else Inr None))))"

record reader_state =
  r_seen :: "pystr set"
  r_rows_total :: int
  r_rows_kept :: int
  r_rows_dup :: int
  r_rows_no_key :: int
  r_kept_rows :: "reader_row list"

definition reader_init :: reader_state where
  "reader_init = \<lparr>r_seen = {}, r_rows_total = 0, r_rows_kept = 0, r_rows_dup = 0,
     r_rows_no_key = 0, r_kept_rows = []\<rparr>"

text \<open>One iteration of \<open>for row in reader\<close> on a row of the reader; it may raise.\<close>

definition reader_dedup_row ::
  "bool \<Rightarrow> reader_state \<Rightarrow> reader_row \<Rightarrow> dedup_error + reader_state" where
  "reader_dedup_row stats_only st r =
     (let st = st\<lparr>r_rows_total := r_rows_total st + 1\<rparr> in
      case reader_key r of
        Inl e \<Rightarrow> Inl e
      | Inr None \<Rightarrow> Inr (st\<lparr>r_rows_no_key := r_rows_no_key st + 1\<rparr>)
      | Inr (Some key) \<Rightarrow>
          if key \<in> r_seen st then Inr (st\<lparr>r_rows_dup := r_rows_dup st + 1\<rparr>)
          else
            let st = st\<lparr>r_seen := insert key (r_seen st), r_rows_kept := r_rows_kept st + 1\<rparr>
            in if \<not> stats_only then Inr (st\<lparr>r_kept_rows := r_kept_rows st @ [r]\<rparr>)
               else Inr st)"

fun reader_dedup_rows ::
  "bool \<Rightarrow> reader_state \<Rightarrow> reader_row list \<Rightarrow> dedup_error + reader_state" where
  "reader_dedup_rows stats_only st [] = Inr st"
| "reader_dedup_rows stats_only st (r # rs) =
     (case reader_dedup_row stats_only st r of
        Inl e \<Rightarrow> Inl e
      | Inr st' \<Rightarrow> reader_dedup_rows stats_only st' rs)"

text \<open>
  \<open>dedup\<close> on a parsed file: \<open>header\<close> is \<open>reader.fieldnames\<close> (\<open>None\<close> for an empty
  file), \<open>rows\<close> the rows the reader yields. Without a header the process exits with
  status 1 before any row is read. After the loop the kept rows are written when
  \<open>stats_only\<close> is false and \<open>output_path\<close> is neither \<open>None\<close> nor empty;
  \<open>csv.DictWriter\<close> raises \<open>ValueError\<close> for a row with a key that is not a field name.
  The result is the final state and the rows written, if any.
\<close>

definition dedup ::
  "pystr list option \<Rightarrow> reader_row list \<Rightarrow> pystr option \<Rightarrow> bool \<Rightarrow>
     dedup_error + reader_state \<times> reader_row list option" where
  "dedup header rows output_path stats_only =
     (case header of
        None \<Rightarrow> Inl (SystemExit 1)
      | Some fieldnames \<Rightarrow>
          if fieldnames = [] then Inl (SystemExit 1)
          else
            (case reader_dedup_rows stats_only reader_init rows of
               Inl e \<Rightarrow> Inl e
             | Inr st \<Rightarrow>
                 if \<not> stats_only \<and> output_path \<noteq> None \<and> output_path \<noteq> Some []
                 then
                   (if list_all (\<lambda>r. dom r \<subseteq> Some ` set fieldnames) (r_kept_rows st)
                    then Inr (st, Some (r_kept_rows st))
                    else Inl ValueError)
                 else Inr (st, None)))"

text \<open>
  The link between the two levels: a row of the reader whose keys are all field names and
  whose cells are all strings, and the Record it stands for.
\<close>

definition string_cells :: "reader_row \<Rightarrow> bool" where
  "string_cells r \<longleftrightarrow> (\<forall>k v. r k = Some v \<longrightarrow> k \<noteq> None \<and> (\<exists>s. v = Str s))"

definition as_row :: "reader_row \<Rightarrow> row" where
  "as_row r name = (case r (Some name) of Some (Str s) \<Rightarrow> Some s | _ \<Rightarrow> None)"

definition same_pass :: "reader_state \<Rightarrow> dedup_state \<Rightarrow> bool" where
  "same_pass rst st \<longleftrightarrow>
     r_seen rst = seen st \<and> r_rows_total rst = rows_total st \<and> r_rows_kept rst = rows_kept st \<and>
     r_rows_dup rst = rows_dup st \<and> r_rows_no_key rst = rows_no_key st \<and>
     map as_row (r_kept_rows rst) = kept_rows st"

subsection \<open>The dedup key as the specification words it\<close>

text \<open>
  The specification describes the dedup key as a tagged value: an identifier key carrying
  the trimmed \<open>data_id\<close>, a geometry key carrying the trimmed title, latitude and
  longitude, or absent. \<open>spec_derive_key\<close> follows that wording; \<open>derive_key\<close> above
  follows the source, where the key is one string.
\<close>

datatype spec_key = IdKey pystr | GeoKey pystr pystr pystr | Absent

definition spec_derive_key :: "row \<Rightarrow> spec_key" where
  "spec_derive_key r =
     (if strip (get_field r (py_str ''data_id'')) \<noteq> []
      then IdKey (strip (get_field r (py_str ''data_id'')))
      else if strip (get_field r (py_str ''title'')) \<noteq> [] \<and>
              strip (get_field r (py_str ''latitude'')) \<noteq> [] \<and>
              strip (get_field r (py_str ''longitude'')) \<noteq> []
      then GeoKey (strip (get_field r (py_str ''title'')))
                  (strip (get_field r (py_str ''latitude'')))
                  (strip (get_field r (py_str ''longitude'')))
      else Absent)"

subsection \<open>First occurrences\<close>

text \<open>
  \<open>firsts S rows\<close> lists the rows of \<open>rows\<close> that have a key which is neither in
  \<open>S\<close> nor the key of an earlier row; \<open>keys_of rows\<close> is the set of keys of the rows.
  \<open>first_occurrence rows i\<close> says that the row at index \<open>i\<close> has a key and that no row
  before it has the same key.
\<close>

fun firsts :: "pystr set \<Rightarrow> row list \<Rightarrow> row list" where
  "firsts S [] = []"
| "firsts S (r # rs) =
     (case derive_key r of
        None \<Rightarrow> firsts S rs
      | Some k \<Rightarrow> if k \<in> S then firsts S rs else r # firsts (insert k S) rs)"

definition first_occurrence :: "row list \<Rightarrow> nat \<Rightarrow> bool" where
  "first_occurrence rows i \<longleftrightarrow>
     derive_key (rows ! i) \<noteq> None \<and> (\<forall>j<i. derive_key (rows ! j) \<noteq> derive_key (rows ! i))"

definition keys_of :: "row list \<Rightarrow> pystr set" where
  "keys_of rows = {k. \<exists>r\<in>set rows. derive_key r = Some k}"

subsection \<open>Example rows\<close>

text \<open>
  Three rows with the \<open>data_id\<close> values \<open>D1\<close>, \<open>D2\<close>, \<open>D1\<close>. Then the row the
  reader yields for the line \<open>,Cafe\<close> under the header
  \<open>data_id,title,latitude,longitude\<close>: two cells for four field names.
\<close>

definition row_D1a :: row where
  "row_D1a = [py_str ''data_id'' \<mapsto> py_str ''D1'', py_str ''title'' \<mapsto> py_str ''first'']"

definition row_D2 :: row where
  "row_D2 = [py_str ''data_id'' \<mapsto> py_str ''D2'', py_str ''title'' \<mapsto> py_str ''second'']"

definition row_D1b :: row where
  "row_D1b = [py_str ''data_id'' \<mapsto> py_str ''D1'', py_str ''title'' \<mapsto> py_str ''third'']"

definition key_fields :: "pystr list" where
  "key_fields = [py_str ''data_id'', py_str ''title'', py_str ''latitude'', py_str ''longitude'']"

definition short_row :: reader_row where
  "short_row = [Some (py_str ''data_id'') \<mapsto> Str [], Some (py_str ''title'') \<mapsto> Str (py_str ''Cafe''),
     Some (py_str ''latitude'') \<mapsto> PyNone, Some (py_str ''longitude'') \<mapsto> PyNone]"

text \<open>
  Two rows without \<open>data_id\<close> whose title and latitude differ, with a vertical bar in
  the title of the first and in the latitude of the second; then rows for the trimming of
  \<open>data_id\<close> and for keys built from title and coordinates.
\<close>

definition row_bar_title :: row where
  "row_bar_title = [py_str ''title'' \<mapsto> py_str ''A|1'', py_str ''latitude'' \<mapsto> py_str ''2'',
     py_str ''longitude'' \<mapsto> py_str ''3'']"

definition row_bar_latitude :: row where
  "row_bar_latitude = [py_str ''title'' \<mapsto> py_str ''A'', py_str ''latitude'' \<mapsto> py_str ''1|2'',
     py_str ''longitude'' \<mapsto> py_str ''3'']"

definition row_abc :: row where
  "row_abc = [py_str ''data_id'' \<mapsto> py_str ''abc'']"

definition row_abc_padded :: row where
  "row_abc_padded = [py_str ''data_id'' \<mapsto> py_str '' abc '']"

definition row_X :: row where
  "row_X = [py_str ''data_id'' \<mapsto> [], py_str ''title'' \<mapsto> py_str ''X'',
     py_str ''latitude'' \<mapsto> py_str ''1.3'', py_str ''longitude'' \<mapsto> py_str ''103.8'']"

definition row_X_zeros :: row where
  "row_X_zeros = [py_str ''data_id'' \<mapsto> [], py_str ''title'' \<mapsto> py_str ''X'',
     py_str ''latitude'' \<mapsto> py_str ''1.3000'', py_str ''longitude'' \<mapsto> py_str ''103.8'']"

section \<open>generate\_singapore\_grid.py\<close>

text \<open>
  Coordinates are Python floats. In \<open>point_in_polygon\<close> and in the first model of
  \<open>generate_grid\<close> they are real numbers: comparison, addition, subtraction,
  multiplication and division are exact, and a division whose divisor is not a nonzero
  constant returns \<open>ZeroDivisionError\<close> for a zero divisor, as the Python operator does.
  Whether the scan of \<open>generate_grid\<close> ends depends on the rounding of its additions;
  for that question the scan is modelled a second time, with doubles as loop variables.
\<close>

type_synonym point = "real \<times> real"

type_synonym polygon = "point list"

datatype py_error = ZeroDivisionError | OverflowError

definition py_truediv :: "real \<Rightarrow> real \<Rightarrow> py_error + real" where
  "py_truediv a b = (if b = 0 then Inl ZeroDivisionError else Inr (a / b))"

subsection \<open>The land polygons\<close>

definition SINGAPORE_MAIN :: polygon where
  "SINGAPORE_MAIN = [(1.160, 103.600), (1.160, 104.050), (1.470, 104.050), (1.470, 103.600)]"

definition MAIN_ISLAND :: polygon where
  "MAIN_ISLAND =
    [(1.250, 103.618), (1.265, 103.600), (1.290, 103.601), (1.310, 103.620), (1.320, 103.642),
     (1.355, 103.650), (1.385, 103.680), (1.415, 103.720), (1.430, 103.740), (1.445, 103.760),
     (1.450, 103.780),
     (1.455, 103.800), (1.460, 103.830), (1.465, 103.860), (1.460, 103.880), (1.455, 103.900),
     (1.450, 103.920),
     (1.420, 103.950), (1.400, 103.970), (1.385, 103.985), (1.370, 104.000), (1.360, 104.020),
     (1.345, 104.040), (1.330, 104.050),
     (1.310, 104.050), (1.300, 104.035), (1.290, 103.990), (1.280, 103.950),
     (1.270, 103.910), (1.265, 103.870), (1.260, 103.830), (1.265, 103.800), (1.270, 103.770),
     (1.275, 103.740), (1.270, 103.710), (1.260, 103.680), (1.255, 103.650), (1.250, 103.618)]"

definition SENTOSA :: polygon where
  "SENTOSA = [(1.240, 103.825), (1.240, 103.860), (1.252, 103.860), (1.252, 103.825)]"

definition JURONG_ISLAND :: polygon where
  "JURONG_ISLAND = [(1.255, 103.660), (1.255, 103.720), (1.280, 103.720), (1.280, 103.660)]"

definition PULAU_UBIN :: polygon where
  "PULAU_UBIN = [(1.395, 103.955), (1.395, 103.990), (1.420, 103.990), (1.420, 103.955)]"

definition PULAU_TEKONG :: polygon where
  "PULAU_TEKONG = [(1.380, 104.010), (1.380, 104.060), (1.420, 104.060), (1.420, 104.010)]"

definition POLYGONS :: "polygon list" where
  "POLYGONS = [MAIN_ISLAND, SENTOSA, JURONG_ISLAND, PULAU_UBIN, PULAU_TEKONG]"

subsection \<open>point\_in\_polygon\<close>

text \<open>
  The condition of the \<open>if\<close> in the loop body, for the vertices \<open>polygon[i] = (yi, xi)\<close> and
  \<open>polygon[j] = (yj, xj)\<close>. Python's \<open>and\<close> evaluates its right operand, and with it the
  division, only when the left operand is true.
\<close>

definition edge_crosses :: "real \<Rightarrow> real \<Rightarrow> point \<Rightarrow> point \<Rightarrow> py_error + bool" where
  "edge_crosses lat lon vi vj =
     (case vi of (yi, xi) \<Rightarrow> case vj of (yj, xj) \<Rightarrow>
        if (yi > lat) \<noteq> (yj > lat)
        then (case py_truediv ((xj - xi) * (lat - yi)) (yj - yi) of
                Inl e \<Rightarrow> Inl e
              | Inr q \<Rightarrow> Inr (lon < q + xi))
        else Inr False)"

text \<open>
  The loop \<open>for i in range(n)\<close>, over the remaining indices, with the current \<open>j\<close> and
  \<open>inside\<close>. Every index read is in range: \<open>i < n\<close>, and \<open>j\<close> is \<open>n - 1\<close> or an earlier \<open>i\<close>.
  For the empty polygon Python's \<open>j\<close> is \<open>-1\<close>; it is never read, since the loop body does
  not run.
\<close>

fun point_in_polygon_loop ::
  "real \<Rightarrow> real \<Rightarrow> polygon \<Rightarrow> nat list \<Rightarrow> nat \<Rightarrow> bool \<Rightarrow> py_error + bool" where
  "point_in_polygon_loop lat lon polygon [] j inside = Inr inside"
| "point_in_polygon_loop lat lon polygon (i # is) j inside =
     (case edge_crosses lat lon (polygon ! i) (polygon ! j) of
        Inl e \<Rightarrow> Inl e
      | Inr c \<Rightarrow> point_in_polygon_loop lat lon polygon is i (if c then \<not> inside else inside))"

definition point_in_polygon :: "real \<Rightarrow> real \<Rightarrow> polygon \<Rightarrow> py_error + bool" where
  "point_in_polygon lat lon polygon =
     (let n = length polygon
      in point_in_polygon_loop lat lon polygon [0..<n] (n - 1) False)"

fun point_in_any_polygon :: "real \<Rightarrow> real \<Rightarrow> polygon list \<Rightarrow> py_error + bool" where
  "point_in_any_polygon lat lon [] = Inr False"
| "point_in_any_polygon lat lon (poly # polygons) =
     (case point_in_polygon lat lon poly of
        Inl e \<Rightarrow> Inl e
      | Inr inside \<Rightarrow> if inside then Inr True else point_in_any_polygon lat lon polygons)"

text \<open>
  An axis-aligned rectangle with its four corners in the order the source lists them for
  its rectangular islands, and the other vertex lists of the same ring: any starting
  corner, in either direction.
\<close>

definition rectangle :: "real \<Rightarrow> real \<Rightarrow> real \<Rightarrow> real \<Rightarrow> polygon" where
  "rectangle lat_lo lat_hi lon_lo lon_hi =
     [(lat_lo, lon_lo), (lat_lo, lon_hi), (lat_hi, lon_hi), (lat_hi, lon_lo)]"

definition rectangles :: "real \<Rightarrow> real \<Rightarrow> real \<Rightarrow> real \<Rightarrow> polygon list" where
  "rectangles lat_lo lat_hi lon_lo lon_hi =
     map (\<lambda>k. rotate k (rectangle lat_lo lat_hi lon_lo lon_hi)) [0, 1, 2, 3] @
     map (\<lambda>k. rotate k (rev (rectangle lat_lo lat_hi lon_lo lon_hi))) [0, 1, 2, 3]"

subsection \<open>generate\_grid\<close>

text \<open>\<open>round(x, 6)\<close>: the nearest multiple of \<open>10^-6\<close>, a tie going to the even one.\<close>

definition round_half_even :: "real \<Rightarrow> int" where
  "round_half_even x =
     (let f = \<lfloor>x\<rfloor>; d = x - of_int f
      in if d < 1 / 2 then f else if 1 / 2 < d then f + 1 else if even f then f else f + 1)"

definition round6 :: "real \<Rightarrow> real" where
  "round6 x = of_int (round_half_even (x * 10 ^ 6)) / 10 ^ 6"

text \<open>\<open>math.radians\<close>\<close>

definition radians :: "real \<Rightarrow> real" where
  "radians d = d * pi / 180"

definition lat_center :: real where "lat_center = 1.35"

definition lat_min :: real where "lat_min = 1.20"

definition lat_max :: real where "lat_max = 1.47"

definition lon_min :: real where "lon_min = 103.59"

definition lon_max :: real where "lon_max = 104.07"

text \<open>
  The inner loop \<open>while lon <= lon_max\<close>, from the current \<open>lon\<close> and \<open>points\<close>. The result
  is \<open>None\<close> when the loop does not end, \<open>Some (Inl e)\<close> when it raises and
  \<open>Some (Inr points)\<close> when it ends.
\<close>

partial_function (option) lon_loop ::
  "real \<Rightarrow> real \<Rightarrow> real \<Rightarrow> point list \<Rightarrow> (py_error + point list) option" where
  "lon_loop lon_step lat lon points =
     (if lon \<le> lon_max then
        (case point_in_any_polygon lat lon POLYGONS of
           Inl e \<Rightarrow> Some (Inl e)
         | Inr inside \<Rightarrow>
             lon_loop lon_step lat (lon + lon_step)
               (if inside then points @ [(round6 lat, round6 lon)] else points))
      else Some (Inr points))"

text \<open>The outer loop \<open>while lat <= lat_max\<close>.\<close>

partial_function (option) lat_loop ::
  "real \<Rightarrow> real \<Rightarrow> real \<Rightarrow> point list \<Rightarrow> (py_error + point list) option" where
  "lat_loop lat_step lon_step lat points =
     (if lat \<le> lat_max then
        (case lon_loop lon_step lat lon_min points of
           None \<Rightarrow> None
         | Some (Inl e) \<Rightarrow> Some (Inl e)
         | Some (Inr points') \<Rightarrow> lat_loop lat_step lon_step (lat + lat_step) points')
      else Some (Inr points))"

text \<open>
  The two divisions of \<open>generate_grid\<close> divide by nonzero constants (\<open>111320.0\<close> and
  \<open>111320.0 * cos(radians(1.35))\<close>) and cannot raise.
\<close>

definition generate_grid :: "real \<Rightarrow> (py_error + point list) option" where
  "generate_grid spacing_m =
     (let lat_step = spacing_m / 111320;
          lon_step = spacing_m / (111320 * cos (radians lat_center))
      in lat_loop lat_step lon_step lat_min [])"


subsection \<open>generate\_grid with doubles\<close>

text \<open>
  \<open>fl x\<close> is the number with a significand of 53 bits that is nearest to \<open>x\<close>, a tie
  going to the even significand. It is the double nearest to \<open>x\<close> whenever that double is
  normal and finite, which is the case for every nonzero value the scan computes at the
  spacings considered below.
\<close>

definition fl :: "real \<Rightarrow> real" where
  "fl x =
     (if x = 0 then 0
      else let u = 2 powr (of_int \<lfloor>log 2 \<bar>x\<bar>\<rfloor> - 52)
           in of_int (round_half_even (x / u)) * u)"

text \<open>
  The conversion of a Python int to a float, as the division of an int by a float performs
  it: the int is rounded to the nearest double, and an int beyond the range of the doubles
  raises \<open>OverflowError\<close>.
\<close>

definition float_of_int :: "int \<Rightarrow> py_error + real" where
  "float_of_int i =
     (if 2 ^ 1024 \<le> \<bar>fl (of_int i)\<bar> then Inl OverflowError else Inr (fl (of_int i)))"

text \<open>
  The spacing that \<open>generate_grid\<close> is called with is an int (the default and what
  \<open>--spacing\<close> parses) or a float, given by its value (the infinities and \<open>nan\<close> are left
  out). Dividing it by the float \<open>111320.0\<close> first converts it.
\<close>

datatype py_number = PyInt int | PyFloat real

definition to_float :: "py_number \<Rightarrow> py_error + real" where
  "to_float v = (case v of PyInt i \<Rightarrow> float_of_int i | PyFloat x \<Rightarrow> Inr x)"

text \<open>
  The two loops with \<open>lon += lon_step\<close> and \<open>lat += lat_step\<close> rounded, the bounds and
  the start values being the doubles of the literals, and the appended coordinates the
  doubles that \<open>round(x, 6)\<close> returns. The test of a point is evaluated exactly: it does
  not raise, and its result only decides whether the point is appended.
\<close>

partial_function (option) lon_loop_double ::
  "real \<Rightarrow> real \<Rightarrow> real \<Rightarrow> point list \<Rightarrow> (py_error + point list) option" where
  "lon_loop_double lon_step lat lon points =
     (if lon \<le> fl lon_max then
        (case point_in_any_polygon lat lon POLYGONS of
           Inl e \<Rightarrow> Some (Inl e)
         | Inr inside \<Rightarrow>
             lon_loop_double lon_step lat (fl (lon + lon_step))
               (if inside then points @ [(fl (round6 lat), fl (round6 lon))] else points))
      else Some (Inr points))"

partial_function (option) lat_loop_double ::
  "real \<Rightarrow> real \<Rightarrow> real \<Rightarrow> point list \<Rightarrow> (py_error + point list) option" where
  "lat_loop_double lat_step lon_step lat points =
     (if lat \<le> fl lat_max then
        (case lon_loop_double lon_step lat (fl lon_min) points of
           None \<Rightarrow> None
         | Some (Inl e) \<Rightarrow> Some (Inl e)
         | Some (Inr points') \<Rightarrow> lat_loop_double lat_step lon_step (fl (lat + lat_step)) points')
      else Some (Inr points))"

text \<open>
  \<open>generate_grid\<close> on doubles. \<open>cos_center\<close> is the double that the library call
  \<open>math.cos(math.radians(lat_center))\<close> returns; \<open>cos_center_double\<close> is its value with
  the usual C library.
\<close>

definition generate_grid_double ::
  "real \<Rightarrow> py_number \<Rightarrow> (py_error + point list) option" where
  "generate_grid_double cos_center spacing_m =
     (case to_float spacing_m of
        Inl e \<Rightarrow> Some (Inl e)
      | Inr s \<Rightarrow>
          let lat_step = fl (s / 111320) in
          (case py_truediv s (fl (111320 * cos_center)) of
             Inl e \<Rightarrow> Some (Inl e)
           | Inr q \<Rightarrow> lat_loop_double lat_step (fl q) (fl lat_min) []))"

definition cos_center_double :: real where
  "cos_center_double = 2251174782101857 / 2 ^ 51"

text \<open>The spacings of at least one metre.\<close>

definition at_least_one_metre :: "py_number \<Rightarrow> bool" where
  "at_least_one_metre v = (case v of PyInt i \<Rightarrow> 1 \<le> i | PyFloat x \<Rightarrow> 1 \<le> x)"


subsection \<open>The scan as lists\<close>

text \<open>
  \<open>on_land\<close> is the test of the inner loop. \<open>row_points n\<close> lists what at most \<open>n\<close>
  iterations of the inner loop append from a longitude on, \<open>grid_points n m\<close> what at most
  \<open>n\<close> iterations of the outer loop append when every row takes at most \<open>m\<close> iterations of
  the inner loop. \<open>grid_output\<close> is the list a call returns (empty when it does not return
  one).
\<close>

definition on_land :: "real \<Rightarrow> real \<Rightarrow> bool" where
  "on_land lat lon \<longleftrightarrow> point_in_any_polygon lat lon POLYGONS = Inr True"

fun row_points :: "nat \<Rightarrow> real \<Rightarrow> real \<Rightarrow> real \<Rightarrow> point list" where
  "row_points 0 lon_step lat lon = []"
| "row_points (Suc n) lon_step lat lon =
     (if lon \<le> lon_max
      then (if on_land lat lon then [(round6 lat, round6 lon)] else [])
             @ row_points n lon_step lat (lon + lon_step)
      else [])"

fun grid_points :: "nat \<Rightarrow> nat \<Rightarrow> real \<Rightarrow> real \<Rightarrow> real \<Rightarrow> point list" where
  "grid_points 0 m lat_step lon_step lat = []"
| "grid_points (Suc n) m lat_step lon_step lat =
     (if lat \<le> lat_max
      then row_points m lon_step lat lon_min @ grid_points n m lat_step lon_step (lat + lat_step)
      else [])"

definition grid_output :: "real \<Rightarrow> point list" where
  "grid_output spacing_m =
     (case generate_grid spacing_m of Some (Inr points) \<Rightarrow> points | _ \<Rightarrow> [])"

section \<open>Properties of the dedup key\<close>

lemma split_at_bar:
  assumes "a @ c # x = b @ c # y" "c \<notin> set x" "c \<notin> set y"
  shows "a = b \<and> x = y"
  using assms
proof (induction a arbitrary: b)
  case Nil
  then show ?case by (cases b) auto
next
  case (Cons h a)
  then show ?case by (cases b) auto
qed

lemma geo_join_inj:
  assumes "t1 @ c # a1 @ c # o1 = t2 @ c # a2 @ c # o2"
    and "c \<notin> set a1" "c \<notin> set o1" "c \<notin> set a2" "c \<notin> set o2"
  shows "t1 = t2 \<and> a1 = a2 \<and> o1 = o2"
proof -
  have "(t1 @ c # a1) @ c # o1 = (t2 @ c # a2) @ c # o2" using assms(1) by simp
  then have 1: "t1 @ c # a1 = t2 @ c # a2 \<and> o1 = o2"
    using assms(3,5) by (rule split_at_bar)
  then have "t1 @ c # a1 = t2 @ c # a2" ..
  then have "t1 = t2 \<and> a1 = a2" using assms(2,4) by (rule split_at_bar)
  with 1 show ?thesis by simp
qed

lemma py_str_bar: "py_str ''|'' = [of_char CHR ''|'']"
  by (simp add: py_str_def)

lemma prefixes_differ: "py_str ''did:'' @ a \<noteq> py_str ''tloc:'' @ b"
  by (simp add: py_str_def)

lemma derive_key_id:
  "strip (get_field r (py_str ''data_id'')) \<noteq> [] \<Longrightarrow>
   derive_key r = Some (py_str ''did:'' @ strip (get_field r (py_str ''data_id'')))"
  by (simp add: derive_key_def)

lemma derive_key_geo:
  "strip (get_field r (py_str ''data_id'')) = [] \<Longrightarrow>
   strip (get_field r (py_str ''title'')) \<noteq> [] \<Longrightarrow>
   strip (get_field r (py_str ''latitude'')) \<noteq> [] \<Longrightarrow>
   strip (get_field r (py_str ''longitude'')) \<noteq> [] \<Longrightarrow>
   derive_key r = Some (py_str ''tloc:'' @ strip (get_field r (py_str ''title'')) @
     of_char CHR ''|'' # strip (get_field r (py_str ''latitude'')) @
     of_char CHR ''|'' # strip (get_field r (py_str ''longitude'')))"
  by (simp add: derive_key_def py_str_bar)

lemma derive_key_none:
  "derive_key r = None \<longleftrightarrow>
   strip (get_field r (py_str ''data_id'')) = [] \<and>
   (strip (get_field r (py_str ''title'')) = [] \<or>
    strip (get_field r (py_str ''latitude'')) = [] \<or>
    strip (get_field r (py_str ''longitude'')) = [])"
  by (simp add: derive_key_def Let_def)

lemma spec_key_absent: "spec_derive_key r = Absent \<longleftrightarrow> derive_key r = None"
  by (simp add: derive_key_none spec_derive_key_def)

lemma strip_surround:
  assumes "list_all isspace a" "list_all isspace b"
  shows "strip (a @ s @ b) = strip s"
proof -
  have 1: "dropWhile isspace (a @ t) = dropWhile isspace t" for t
    using assms(1) by (induction a) simp_all
  have 2: "dropWhile isspace (rev b @ t) = dropWhile isspace t" for t
    using assms(2) by (induction b arbitrary: t) simp_all
  show ?thesis
  proof (cases "\<forall>x\<in>set s. isspace x")
    case True
    have "\<forall>x\<in>set (s @ b). isspace x"
      using True assms(2) by (simp add: list_all_iff ball_Un)
    then have A: "dropWhile isspace (s @ b) = []" by (simp only: dropWhile_eq_Nil_conv)
    have B: "dropWhile isspace s = []" using True by (simp only: dropWhile_eq_Nil_conv)
    show ?thesis unfolding strip_def 1 A B ..
  next
    case False
    then obtain x where "x \<in> set s" "\<not> isspace x" by blast
    then have C: "dropWhile isspace (s @ b) = dropWhile isspace s @ b"
      by (rule dropWhile_append1)
    show ?thesis unfolding strip_def 1 C rev_append 2 ..
  qed
qed

section \<open>Properties of the dedup pass\<close>

lemma keys_of_simps [simp]:
  "keys_of [] = {}"
  "keys_of (r # rs) = (case derive_key r of None \<Rightarrow> {} | Some k \<Rightarrow> {k}) \<union> keys_of rs"
  "keys_of (xs @ ys) = keys_of xs \<union> keys_of ys"
  by (auto simp: keys_of_def split: option.splits)

lemma dedup_row_seen:
  "seen (dedup_row so st r) = seen st \<union> keys_of [r]"
  by (auto simp: dedup_row_def Let_def split: option.splits)

lemma dedup_row_kept_rows:
  "kept_rows (dedup_row so st r) = kept_rows st @ (if so then [] else firsts (seen st) [r])"
  by (simp add: dedup_row_def Let_def split: option.splits)

lemma dedup_row_rows_kept:
  "rows_kept (dedup_row so st r) = rows_kept st + int (length (firsts (seen st) [r]))"
  by (simp add: dedup_row_def Let_def split: option.splits)

lemma dedup_row_rows_no_key:
  "rows_no_key (dedup_row so st r) =
     rows_no_key st + int (length (filter (\<lambda>r. derive_key r = None) [r]))"
  by (simp add: dedup_row_def Let_def split: option.splits)

lemma dedup_row_rows_total:
  "rows_total (dedup_row so st r) = rows_total st + 1"
  by (simp add: dedup_row_def Let_def split: option.splits)

lemma dedup_row_balance:
  "rows_total (dedup_row so st r) - rows_kept (dedup_row so st r) - rows_dup (dedup_row so st r)
     - rows_no_key (dedup_row so st r)
   = rows_total st - rows_kept st - rows_dup st - rows_no_key st"
  by (simp add: dedup_row_def Let_def split: option.splits)

lemma firsts_append:
  "firsts S (xs @ ys) = firsts S xs @ firsts (S \<union> keys_of xs) ys"
proof (induction xs arbitrary: S)
  case Nil
  then show ?case by simp
next
  case (Cons r xs)
  show ?case
  proof (cases "derive_key r")
    case None
    then show ?thesis by (simp add: Cons.IH)
  next
    case (Some k)
    then show ?thesis by (simp add: Cons.IH insert_absorb Un_ac)
  qed
qed

lemma fold_seen:
  "seen (foldl (dedup_row so) st rows) = seen st \<union> keys_of rows"
  by (induction rows arbitrary: st) (simp_all add: dedup_row_seen Un_assoc)

lemma fold_kept_rows:
  "kept_rows (foldl (dedup_row so) st rows)
     = kept_rows st @ (if so then [] else firsts (seen st) rows)"
proof (induction rows arbitrary: st)
  case Nil
  then show ?case by simp
next
  case (Cons r rows)
  have "firsts (seen st) (r # rows) = firsts (seen st) [r] @ firsts (seen st \<union> keys_of [r]) rows"
    using firsts_append[of "seen st" "[r]" rows] by simp
  then show ?case
    by (simp add: Cons.IH dedup_row_kept_rows dedup_row_seen del: firsts.simps keys_of_simps)
qed

lemma fold_rows_kept:
  "rows_kept (foldl (dedup_row so) st rows)
     = rows_kept st + int (length (firsts (seen st) rows))"
proof (induction rows arbitrary: st)
  case Nil
  then show ?case by simp
next
  case (Cons r rows)
  have "firsts (seen st) (r # rows) = firsts (seen st) [r] @ firsts (seen st \<union> keys_of [r]) rows"
    using firsts_append[of "seen st" "[r]" rows] by simp
  then show ?case
    by (simp add: Cons.IH dedup_row_rows_kept dedup_row_seen del: firsts.simps keys_of_simps)
qed

lemma fold_rows_no_key:
  "rows_no_key (foldl (dedup_row so) st rows)
     = rows_no_key st + int (length (filter (\<lambda>r. derive_key r = None) rows))"
  by (induction rows arbitrary: st) (simp_all add: dedup_row_rows_no_key)

lemma fold_rows_total:
  "rows_total (foldl (dedup_row so) st rows) = rows_total st + int (length rows)"
  by (induction rows arbitrary: st) (simp_all add: dedup_row_rows_total)

lemma fold_balance:
  "rows_total (foldl (dedup_row so) st rows) - rows_kept (foldl (dedup_row so) st rows)
     - rows_dup (foldl (dedup_row so) st rows) - rows_no_key (foldl (dedup_row so) st rows)
   = rows_total st - rows_kept st - rows_dup st - rows_no_key st"
proof (induction rows arbitrary: st)
  case Nil
  then show ?case by simp
next
  case (Cons r rows)
  show ?case
    unfolding foldl_Cons Cons.IH[of "dedup_row so st r"] by (rule dedup_row_balance)
qed

lemma firsts_keys:
  "r \<in> set (firsts S rows) \<Longrightarrow> \<exists>k. derive_key r = Some k \<and> k \<notin> S"
proof (induction rows arbitrary: S)
  case Nil
  then show ?case by simp
next
  case (Cons a rows)
  then show ?case
    by (cases "derive_key a") (auto split: if_splits)
qed

lemma firsts_idem: "firsts S (firsts S rows) = firsts S rows"
proof (induction rows arbitrary: S)
  case Nil
  then show ?case by simp
next
  case (Cons a rows)
  then show ?case
    by (cases "derive_key a") simp_all
qed

lemma firsts_drop_no_key:
  "firsts S (filter (\<lambda>r. derive_key r \<noteq> None) rows) = firsts S rows"
proof (induction rows arbitrary: S)
  case Nil
  then show ?case by simp
next
  case (Cons a rows)
  then show ?case
    by (cases "derive_key a") simp_all
qed

lemma keys_of_drop_no_key:
  "keys_of (filter (\<lambda>r. derive_key r \<noteq> None) rows) = keys_of rows"
  by (auto simp: keys_of_def)

lemma firsts_distinct: "distinct (map derive_key (firsts S rows))"
proof (induction rows arbitrary: S)
  case Nil
  then show ?case by simp
next
  case (Cons a rows)
  show ?case
  proof (cases "derive_key a")
    case None
    then show ?thesis by (simp add: Cons.IH)
  next
    case (Some k)
    have "Some k \<notin> derive_key ` set (firsts (insert k S) rows)"
      using firsts_keys[of _ "insert k S" rows] by force
    then show ?thesis using Some by (simp add: Cons.IH)
  qed
qed

lemma firsts_no_key_free: "filter (\<lambda>r. derive_key r = None) (firsts S rows) = []"
  using firsts_keys[of _ S rows] by (auto simp: filter_empty_conv)

lemma dedup_rows_kept_rows: "kept_rows (dedup_rows False rows) = firsts {} rows"
  by (simp add: dedup_rows_def fold_kept_rows dedup_init_def)

lemma dedup_rows_seen: "seen (dedup_rows so rows) = keys_of rows"
  by (simp add: dedup_rows_def fold_seen dedup_init_def)

lemma dedup_rows_rows_kept: "rows_kept (dedup_rows so rows) = int (length (firsts {} rows))"
  by (simp add: dedup_rows_def fold_rows_kept dedup_init_def)

lemma dedup_rows_rows_no_key:
  "rows_no_key (dedup_rows so rows) = int (length (filter (\<lambda>r. derive_key r = None) rows))"
  by (simp add: dedup_rows_def fold_rows_no_key dedup_init_def)

lemma dedup_rows_rows_total: "rows_total (dedup_rows so rows) = int (length rows)"
  by (simp add: dedup_rows_def fold_rows_total dedup_init_def)

lemma dedup_rows_rows_dup:
  "rows_dup (dedup_rows so rows) =
     int (length rows) - int (length (firsts {} rows))
       - int (length (filter (\<lambda>r. derive_key r = None) rows))"
proof -
  have "rows_total (dedup_rows so rows) - rows_kept (dedup_rows so rows)
      - rows_dup (dedup_rows so rows) - rows_no_key (dedup_rows so rows) = 0"
    unfolding dedup_rows_def fold_balance by (simp add: dedup_init_def)
  then show ?thesis
    by (simp add: dedup_rows_rows_total dedup_rows_rows_kept dedup_rows_rows_no_key)
qed

lemma first_occurrence_snoc_old:
  "i < length rows \<Longrightarrow> first_occurrence (rows @ [r]) i = first_occurrence rows i"
  by (simp add: first_occurrence_def nth_append)

lemma first_occurrence_snoc_new:
  "first_occurrence (rows @ [r]) (length rows) \<longleftrightarrow>
     (\<exists>k. derive_key r = Some k \<and> k \<notin> keys_of rows)"
proof -
  have "(\<forall>j<length rows. derive_key (rows ! j) \<noteq> Some k) \<longleftrightarrow> k \<notin> keys_of rows" for k
    unfolding keys_of_def by (simp add: Ball_def in_set_conv_nth) metis
  then show ?thesis
    by (cases "derive_key r") (simp_all add: first_occurrence_def nth_append)
qed

lemma firsts_index:
  "firsts {} rows = map ((!) rows) (filter (first_occurrence rows) [0..<length rows])"
proof (induction rows rule: rev_induct)
  case Nil
  then show ?case by simp
next
  case (snoc r rows)
  have old: "map ((!) (rows @ [r])) (filter (first_occurrence (rows @ [r])) [0..<length rows])
      = map ((!) rows) (filter (first_occurrence rows) [0..<length rows])"
  proof -
    have "filter (first_occurrence (rows @ [r])) [0..<length rows]
        = filter (first_occurrence rows) [0..<length rows]"
      by (rule filter_cong) (simp_all add: first_occurrence_snoc_old)
    moreover have "map ((!) (rows @ [r])) (filter (first_occurrence rows) [0..<length rows])
        = map ((!) rows) (filter (first_occurrence rows) [0..<length rows])"
      by (rule map_cong) (simp_all add: nth_append)
    ultimately show ?thesis by simp
  qed
  have new: "firsts (keys_of rows) [r]
      = (if first_occurrence (rows @ [r]) (length rows) then [r] else [])"
    unfolding first_occurrence_snoc_new by (cases "derive_key r") simp_all
  have "firsts {} (rows @ [r]) = firsts {} rows @ firsts (keys_of rows) [r]"
    using firsts_append[of "{}" rows "[r]"] by simp
  then show ?case
    using old new snoc.IH by simp
qed

lemma strip_D1: "strip (py_str ''D1'') = py_str ''D1''"
  by (simp add: strip_def isspace_def py_str_def)

lemma strip_D2: "strip (py_str ''D2'') = py_str ''D2''"
  by (simp add: strip_def isspace_def py_str_def)

lemma D1_neq_D2: "py_str ''D1'' \<noteq> py_str ''D2''"
  by (simp add: py_str_def)

lemma derive_key_D1:
  "r (py_str ''data_id'') = Some (py_str ''D1'') \<Longrightarrow>
   derive_key r = Some (py_str ''did:'' @ py_str ''D1'')"
proof -
  assume a: "r (py_str ''data_id'') = Some (py_str ''D1'')"
  have g: "get_field r (py_str ''data_id'') = py_str ''D1''"
    by (simp add: get_field_def a)
  have n: "py_str ''D1'' \<noteq> []" by (simp add: py_str_def)
  show ?thesis using derive_key_id[of r] unfolding g strip_D1 using n by simp
qed

lemma derive_key_D2:
  "r (py_str ''data_id'') = Some (py_str ''D2'') \<Longrightarrow>
   derive_key r = Some (py_str ''did:'' @ py_str ''D2'')"
proof -
  assume a: "r (py_str ''data_id'') = Some (py_str ''D2'')"
  have g: "get_field r (py_str ''data_id'') = py_str ''D2''"
    by (simp add: get_field_def a)
  have n: "py_str ''D2'' \<noteq> []" by (simp add: py_str_def)
  show ?thesis using derive_key_id[of r] unfolding g strip_D2 using n by simp
qed

lemma three_rows:
  assumes "r1 (py_str ''data_id'') = Some (py_str ''D1'')"
    and "r2 (py_str ''data_id'') = Some (py_str ''D2'')"
    and "r3 (py_str ''data_id'') = Some (py_str ''D1'')"
  shows "dedup_rows False [r1, r2, r3] =
    \<lparr>seen = {py_str ''did:'' @ py_str ''D2'', py_str ''did:'' @ py_str ''D1''},
     rows_total = 3, rows_kept = 2, rows_dup = 1, rows_no_key = 0, kept_rows = [r1, r2]\<rparr>"
proof -
  have k: "derive_key r1 = Some (py_str ''did:'' @ py_str ''D1'')"
    "derive_key r2 = Some (py_str ''did:'' @ py_str ''D2'')"
    "derive_key r3 = Some (py_str ''did:'' @ py_str ''D1'')"
    using assms by (simp_all add: derive_key_D1 derive_key_D2)
  show ?thesis
    using D1_neq_D2 by (simp add: dedup_rows_def dedup_init_def dedup_row_def k)
qed

text \<open>
  Claim C3. The kept rows of a pass with retention are exactly the rows at the
  first-occurrence indices of the input (the first row of each derivable key; every later
  row with the same key is dropped), in input order. For three rows whose \<open>data_id\<close> is
  \<open>D1\<close>, \<open>D2\<close>, \<open>D1\<close> the output is rows 1 and 2 in that order, with two rows kept,
  one duplicate and no row without key.
\<close>

theorem dedup_first_occurrence_wins:
  "kept_rows (dedup_rows False rows) =
     map ((!) rows) (filter (first_occurrence rows) [0..<length rows]) \<and>
   (r1 (py_str ''data_id'') = Some (py_str ''D1'') \<and>
    r2 (py_str ''data_id'') = Some (py_str ''D2'') \<and>
    r3 (py_str ''data_id'') = Some (py_str ''D1'') \<longrightarrow>
      kept_rows (dedup_rows False [r1, r2, r3]) = [r1, r2] \<and>
      rows_kept (dedup_rows False [r1, r2, r3]) = 2 \<and>
      rows_dup (dedup_rows False [r1, r2, r3]) = 1 \<and>
      rows_no_key (dedup_rows False [r1, r2, r3]) = 0)"
proof (intro conjI impI)
  show "kept_rows (dedup_rows False rows) =
     map ((!) rows) (filter (first_occurrence rows) [0..<length rows])"
    unfolding dedup_rows_kept_rows by (rule firsts_index)
next
  assume a: "r1 (py_str ''data_id'') = Some (py_str ''D1'') \<and>
    r2 (py_str ''data_id'') = Some (py_str ''D2'') \<and>
    r3 (py_str ''data_id'') = Some (py_str ''D1'')"
  then have st: "dedup_rows False [r1, r2, r3] =
    \<lparr>seen = {py_str ''did:'' @ py_str ''D2'', py_str ''did:'' @ py_str ''D1''},
     rows_total = 3, rows_kept = 2, rows_dup = 1, rows_no_key = 0, kept_rows = [r1, r2]\<rparr>"
    by (intro three_rows) simp_all
  show "kept_rows (dedup_rows False [r1, r2, r3]) = [r1, r2]" by (simp add: st)
  show "rows_kept (dedup_rows False [r1, r2, r3]) = 2" by (simp add: st)
  show "rows_dup (dedup_rows False [r1, r2, r3]) = 1" by (simp add: st)
  show "rows_no_key (dedup_rows False [r1, r2, r3]) = 0" by (simp add: st)
qed

lemma example_rows_data_id:
  "row_D1a (py_str ''data_id'') = Some (py_str ''D1'')"
  "row_D2 (py_str ''data_id'') = Some (py_str ''D2'')"
  "row_D1b (py_str ''data_id'') = Some (py_str ''D1'')"
  by (simp_all add: row_D1a_def row_D2_def row_D1b_def py_str_def)

lemma example_first_occurrences:
  "filter (first_occurrence [row_D1a, row_D2, row_D1b]) [0..<length [row_D1a, row_D2, row_D1b]]
     = [0, 1]"
proof -
  have k: "derive_key row_D1a = Some (py_str ''did:'' @ py_str ''D1'')"
    "derive_key row_D2 = Some (py_str ''did:'' @ py_str ''D2'')"
    "derive_key row_D1b = Some (py_str ''did:'' @ py_str ''D1'')"
    by (simp_all add: derive_key_D1 derive_key_D2 example_rows_data_id)
  have u: "[0..<length [row_D1a, row_D2, row_D1b]] = [0, 1, 2]"
    by (simp add: upt_rec)
  have "first_occurrence [row_D1a, row_D2, row_D1b] 0"
    by (simp add: first_occurrence_def k)
  moreover have "first_occurrence [row_D1a, row_D2, row_D1b] 1"
    using D1_neq_D2 by (simp add: first_occurrence_def k)
  moreover have "\<not> first_occurrence [row_D1a, row_D2, row_D1b] 2"
    unfolding first_occurrence_def by (auto simp: k intro: exI[of _ 0])
  ultimately show ?thesis unfolding u by simp
qed

theorem dedup_first_occurrence_wins_witness:
  "kept_rows (dedup_rows False [row_D1a, row_D2, row_D1b]) = [row_D1a, row_D2] \<and>
   filter (first_occurrence [row_D1a, row_D2, row_D1b])
     [0..<length [row_D1a, row_D2, row_D1b]] = [0, 1] \<and>
   row_D1a (py_str ''data_id'') = Some (py_str ''D1'') \<and>
   row_D2 (py_str ''data_id'') = Some (py_str ''D2'') \<and>
   row_D1b (py_str ''data_id'') = Some (py_str ''D1'') \<and>
   rows_kept (dedup_rows False [row_D1a, row_D2, row_D1b]) = 2 \<and>
   rows_dup (dedup_rows False [row_D1a, row_D2, row_D1b]) = 1 \<and>
   rows_no_key (dedup_rows False [row_D1a, row_D2, row_D1b]) = 0"
proof -
  note t = dedup_first_occurrence_wins[of "[row_D1a, row_D2, row_D1b]" row_D1a row_D2 row_D1b]
  have h: "row_D1a (py_str ''data_id'') = Some (py_str ''D1'') \<and>
    row_D2 (py_str ''data_id'') = Some (py_str ''D2'') \<and>
    row_D1b (py_str ''data_id'') = Some (py_str ''D1'')"
    by (simp add: example_rows_data_id)
  from t have "kept_rows (dedup_rows False [row_D1a, row_D2, row_D1b]) =
     map ((!) [row_D1a, row_D2, row_D1b]) (filter (first_occurrence [row_D1a, row_D2, row_D1b])
       [0..<length [row_D1a, row_D2, row_D1b]])"
    by (rule conjunct1)
  then have a: "kept_rows (dedup_rows False [row_D1a, row_D2, row_D1b]) = [row_D1a, row_D2]"
    unfolding example_first_occurrences by simp
  from t have "row_D1a (py_str ''data_id'') = Some (py_str ''D1'') \<and>
    row_D2 (py_str ''data_id'') = Some (py_str ''D2'') \<and>
    row_D1b (py_str ''data_id'') = Some (py_str ''D1'') \<longrightarrow>
      kept_rows (dedup_rows False [row_D1a, row_D2, row_D1b]) = [row_D1a, row_D2] \<and>
      rows_kept (dedup_rows False [row_D1a, row_D2, row_D1b]) = 2 \<and>
      rows_dup (dedup_rows False [row_D1a, row_D2, row_D1b]) = 1 \<and>
      rows_no_key (dedup_rows False [row_D1a, row_D2, row_D1b]) = 0"
    by (rule conjunct2)
  then have b: "kept_rows (dedup_rows False [row_D1a, row_D2, row_D1b]) = [row_D1a, row_D2] \<and>
      rows_kept (dedup_rows False [row_D1a, row_D2, row_D1b]) = 2 \<and>
      rows_dup (dedup_rows False [row_D1a, row_D2, row_D1b]) = 1 \<and>
      rows_no_key (dedup_rows False [row_D1a, row_D2, row_D1b]) = 0"
    using h by (rule mp)
  show ?thesis
    using a b h example_first_occurrences by blast
qed

text \<open>
  Claim C6. A second pass over the kept rows of a first pass keeps every row again: it
  removes no duplicate and drops no row for want of a key, since the kept rows all have a
  key and their keys are pairwise distinct.
\<close>

theorem dedup_idempotent:
  "kept_rows (dedup_rows False (kept_rows (dedup_rows False rows)))
     = kept_rows (dedup_rows False rows) \<and>
   rows_dup (dedup_rows False (kept_rows (dedup_rows False rows))) = 0 \<and>
   rows_no_key (dedup_rows False (kept_rows (dedup_rows False rows))) = 0 \<and>
   rows_kept (dedup_rows False (kept_rows (dedup_rows False rows)))
     = rows_total (dedup_rows False (kept_rows (dedup_rows False rows))) \<and>
   distinct (map derive_key (kept_rows (dedup_rows False rows))) \<and>
   None \<notin> set (map derive_key (kept_rows (dedup_rows False rows)))"
proof -
  have "None \<notin> set (map derive_key (firsts {} rows))"
    using firsts_keys[of _ "{}" rows] by force
  then show ?thesis
    by (simp add: dedup_rows_kept_rows dedup_rows_rows_dup dedup_rows_rows_no_key
        dedup_rows_rows_kept dedup_rows_rows_total firsts_idem firsts_no_key_free
        firsts_distinct)
qed

text \<open>
  Claim C10. After every prefix of the input (so after each iteration of the loop, and at
  the end) \<open>rows_total = rows_kept + rows_dup + rows_no_key\<close>, and with retention the
  number of kept rows is \<open>rows_kept\<close>. Each single iteration preserves both balances, from
  any state.
\<close>

theorem dedup_counters_consistent:
  "rows_total (dedup_rows stats_only (take n rows))
     = rows_kept (dedup_rows stats_only (take n rows))
       + rows_dup (dedup_rows stats_only (take n rows))
       + rows_no_key (dedup_rows stats_only (take n rows)) \<and>
   int (length (kept_rows (dedup_rows False (take n rows))))
     = rows_kept (dedup_rows False (take n rows)) \<and>
   rows_total (dedup_row stats_only st r) - rows_kept (dedup_row stats_only st r)
       - rows_dup (dedup_row stats_only st r) - rows_no_key (dedup_row stats_only st r)
     = rows_total st - rows_kept st - rows_dup st - rows_no_key st \<and>
   int (length (kept_rows (dedup_row False st r))) - rows_kept (dedup_row False st r)
     = int (length (kept_rows st)) - rows_kept st"
proof (intro conjI)
  show "rows_total (dedup_rows stats_only (take n rows))
     = rows_kept (dedup_rows stats_only (take n rows))
       + rows_dup (dedup_rows stats_only (take n rows))
       + rows_no_key (dedup_rows stats_only (take n rows))"
    by (simp add: dedup_rows_rows_dup dedup_rows_rows_no_key dedup_rows_rows_kept
        dedup_rows_rows_total)
  show "int (length (kept_rows (dedup_rows False (take n rows))))
     = rows_kept (dedup_rows False (take n rows))"
    by (simp add: dedup_rows_kept_rows dedup_rows_rows_kept)
  show "rows_total (dedup_row stats_only st r) - rows_kept (dedup_row stats_only st r)
       - rows_dup (dedup_row stats_only st r) - rows_no_key (dedup_row stats_only st r)
     = rows_total st - rows_kept st - rows_dup st - rows_no_key st"
    by (rule dedup_row_balance)
  show "int (length (kept_rows (dedup_row False st r))) - rows_kept (dedup_row False st r)
     = int (length (kept_rows st)) - rows_kept st"
    by (simp add: dedup_row_kept_rows dedup_row_rows_kept)
qed

text \<open>
  On Records, where every cell is a string, a row without key is handled as follows. It has
  no key exactly when its trimmed \<open>data_id\<close> is empty and one of the trimmed title,
  latitude and longitude is empty. It only increments \<open>rows_total\<close> and
  \<open>rows_no_key\<close>: the set of seen keys and the kept rows stay as they are, and the row
  is never in the output. Every such row is counted under \<open>rows_no_key\<close>, and removing
  all of them from the input changes neither the kept rows, the seen keys, nor the numbers
  of kept rows and duplicates.
\<close>

lemma no_key_records_dropped:
  "(derive_key r = None \<longleftrightarrow>
      strip (get_field r (py_str ''data_id'')) = [] \<and>
      (strip (get_field r (py_str ''title'')) = [] \<or>
       strip (get_field r (py_str ''latitude'')) = [] \<or>
       strip (get_field r (py_str ''longitude'')) = [])) \<and>
   (derive_key r = None \<longrightarrow>
      dedup_row stats_only st r
        = st\<lparr>rows_total := rows_total st + 1, rows_no_key := rows_no_key st + 1\<rparr> \<and>
      r \<notin> set (kept_rows (dedup_rows False rows))) \<and>
   rows_no_key (dedup_rows stats_only rows)
     = int (length (filter (\<lambda>r. derive_key r = None) rows)) \<and>
   kept_rows (dedup_rows stats_only (filter (\<lambda>r. derive_key r \<noteq> None) rows))
     = kept_rows (dedup_rows stats_only rows) \<and>
   seen (dedup_rows stats_only (filter (\<lambda>r. derive_key r \<noteq> None) rows))
     = seen (dedup_rows stats_only rows) \<and>
   rows_kept (dedup_rows stats_only (filter (\<lambda>r. derive_key r \<noteq> None) rows))
     = rows_kept (dedup_rows stats_only rows) \<and>
   rows_dup (dedup_rows stats_only (filter (\<lambda>r. derive_key r \<noteq> None) rows))
     = rows_dup (dedup_rows stats_only rows)"
proof (intro conjI impI)
  show "derive_key r = None \<longleftrightarrow>
      strip (get_field r (py_str ''data_id'')) = [] \<and>
      (strip (get_field r (py_str ''title'')) = [] \<or>
       strip (get_field r (py_str ''latitude'')) = [] \<or>
       strip (get_field r (py_str ''longitude'')) = [])"
    by (rule derive_key_none)
next
  assume "derive_key r = None"
  then show "dedup_row stats_only st r
        = st\<lparr>rows_total := rows_total st + 1, rows_no_key := rows_no_key st + 1\<rparr>"
    by (simp add: dedup_row_def)
next
  assume "derive_key r = None"
  then show "r \<notin> set (kept_rows (dedup_rows False rows))"
    using firsts_keys[of r "{}" rows] by (auto simp: dedup_rows_kept_rows)
next
  show "rows_no_key (dedup_rows stats_only rows)
     = int (length (filter (\<lambda>r. derive_key r = None) rows))"
    by (rule dedup_rows_rows_no_key)
next
  show "kept_rows (dedup_rows stats_only (filter (\<lambda>r. derive_key r \<noteq> None) rows))
     = kept_rows (dedup_rows stats_only rows)"
    unfolding dedup_rows_def fold_kept_rows firsts_drop_no_key ..
next
  show "seen (dedup_rows stats_only (filter (\<lambda>r. derive_key r \<noteq> None) rows))
     = seen (dedup_rows stats_only rows)"
    unfolding dedup_rows_seen keys_of_drop_no_key ..
next
  show "rows_kept (dedup_rows stats_only (filter (\<lambda>r. derive_key r \<noteq> None) rows))
     = rows_kept (dedup_rows stats_only rows)"
    unfolding dedup_rows_rows_kept firsts_drop_no_key ..
next
  have "length rows = length (filter (\<lambda>r. derive_key r \<noteq> None) rows)
      + length (filter (\<lambda>r. derive_key r = None) rows)"
    using sum_length_filter_compl[of "\<lambda>r. derive_key r \<noteq> None" rows] by simp
  moreover have "filter (\<lambda>r. derive_key r = None) (filter (\<lambda>r. derive_key r \<noteq> None) rows) = []"
    by (induction rows) auto
  ultimately show "rows_dup (dedup_rows stats_only (filter (\<lambda>r. derive_key r \<noteq> None) rows))
     = rows_dup (dedup_rows stats_only rows)"
    unfolding dedup_rows_rows_dup firsts_drop_no_key by simp
qed

subsection \<open>Rows of the reader\<close>

text \<open>
  On rows of the reader whose cells are all strings the loop does not raise, and it runs
  as the loop on the Records they stand for: same seen keys, same counters, and the kept
  rows stand for the kept Records.
\<close>

lemma get_stripped_string_cells:
  assumes "string_cells r"
  shows "get_stripped r name = Inr (strip (get_field (as_row r) name))"
proof (cases "r (Some name)")
  case None
  then show ?thesis by (simp add: get_stripped_def get_field_def as_row_def)
next
  case (Some v)
  with assms obtain s where "v = Str s" unfolding string_cells_def by blast
  with Some show ?thesis by (simp add: get_stripped_def get_field_def as_row_def)
qed

lemma reader_key_string_cells:
  assumes "string_cells r"
  shows "reader_key r = Inr (derive_key (as_row r))"
  unfolding reader_key_def derive_key_def get_stripped_string_cells[OF assms] Let_def
  by simp

lemma reader_dedup_row_string_cells:
  assumes "string_cells r" "same_pass rst st"
  shows "\<exists>rst'. reader_dedup_row stats_only rst r = Inr rst' \<and>
    same_pass rst' (dedup_row stats_only st (as_row r))"
  using assms(2)
  unfolding reader_dedup_row_def dedup_row_def reader_key_string_cells[OF assms(1)] Let_def
  by (cases "derive_key (as_row r)") (auto simp: same_pass_def)

lemma reader_dedup_rows_string_cells:
  assumes "list_all string_cells rows" "same_pass rst st"
  shows "\<exists>rst'. reader_dedup_rows stats_only rst rows = Inr rst' \<and>
    same_pass rst' (foldl (dedup_row stats_only) st (map as_row rows))"
  using assms
proof (induction rows arbitrary: rst st)
  case Nil
  then show ?case by simp
next
  case (Cons r rows)
  from Cons.prems obtain rst1 where 1: "reader_dedup_row stats_only rst r = Inr rst1"
    "same_pass rst1 (dedup_row stats_only st (as_row r))"
    using reader_dedup_row_string_cells[of r rst st stats_only] by auto
  from Cons.prems have "list_all string_cells rows" by simp
  from Cons.IH[OF this 1(2)] 1(1) show ?case by simp
qed

lemma same_pass_init: "same_pass reader_init dedup_init"
  by (simp add: same_pass_def reader_init_def dedup_init_def)

lemma reader_pass_on_records:
  assumes "list_all string_cells rows"
  shows "\<exists>rst. reader_dedup_rows stats_only reader_init rows = Inr rst \<and>
    same_pass rst (dedup_rows stats_only (map as_row rows))"
  unfolding dedup_rows_def
  using reader_dedup_rows_string_cells[OF assms same_pass_init] .

lemma short_row_key: "reader_key short_row = Inl AttributeError"
  by (simp add: reader_key_def get_stripped_def short_row_def strip_def py_str_def)

text \<open>
  Claim C9 fails on the code for a row with a missing cell. For the line \<open>,Cafe\<close> under
  the header \<open>data_id,title,latitude,longitude\<close> the reader maps \<open>latitude\<close> and
  \<open>longitude\<close> to \<open>None\<close>; the key is present, so \<open>row.get("latitude", "")\<close> returns
  \<open>None\<close> and not the default, and \<open>.strip()\<close> raises \<open>AttributeError\<close>. The row is
  neither dropped nor counted under \<open>rows_no_key\<close>: the pass ends with the exception, with
  and without \<open>stats_only\<close>.
\<close>

theorem short_row_raises:
  "reader_key short_row = Inl AttributeError \<and>
   reader_dedup_row False reader_init short_row = Inl AttributeError \<and>
   dedup (Some key_fields) [short_row] (Some (py_str ''out.csv'')) False = Inl AttributeError \<and>
   dedup (Some key_fields) [short_row] None True = Inl AttributeError"
  by (simp add: short_row_key reader_dedup_row_def dedup_def key_fields_def)

subsection \<open>Keys that collide\<close>

lemma derive_key_row_bar_title: "derive_key row_bar_title = Some (py_str ''tloc:A|1|2|3'')"
  by (simp add: derive_key_def row_bar_title_def get_field_def strip_def isspace_def py_str_def)

lemma derive_key_row_bar_latitude: "derive_key row_bar_latitude = Some (py_str ''tloc:A|1|2|3'')"
  by (simp add: derive_key_def row_bar_latitude_def get_field_def strip_def isspace_def
      py_str_def)

lemma spec_key_row_bar_title:
  "spec_derive_key row_bar_title = GeoKey (py_str ''A|1'') (py_str ''2'') (py_str ''3'')"
  by (simp add: spec_derive_key_def row_bar_title_def get_field_def strip_def isspace_def
      py_str_def)

lemma spec_key_row_bar_latitude:
  "spec_derive_key row_bar_latitude = GeoKey (py_str ''A'') (py_str ''1|2'') (py_str ''3'')"
  by (simp add: spec_derive_key_def row_bar_latitude_def get_field_def strip_def isspace_def
      py_str_def)

text \<open>
  Claim C1 as stated fails: two rows with different trimmed (title, latitude, longitude)
  get the same key string when the separator occurs inside a field. Both keys are
  \<open>tloc:A|1|2|3\<close>.
\<close>

theorem key_equality_counterexample:
  "derive_key row_bar_title \<noteq> None \<and> derive_key row_bar_latitude \<noteq> None \<and>
   derive_key row_bar_title = derive_key row_bar_latitude \<and>
   spec_derive_key row_bar_title \<noteq> spec_derive_key row_bar_latitude"
  by (simp add: derive_key_row_bar_title derive_key_row_bar_latitude spec_key_row_bar_title
      spec_key_row_bar_latitude py_str_def)

lemma spec_key_geo_fields:
  assumes "spec_derive_key r = GeoKey t la lo"
  shows "strip (get_field r (py_str ''data_id'')) = []"
    and "strip (get_field r (py_str ''title'')) = t"
    and "strip (get_field r (py_str ''latitude'')) = la"
    and "strip (get_field r (py_str ''longitude'')) = lo"
    and "t \<noteq> []" and "la \<noteq> []" and "lo \<noteq> []"
  using assms by (auto simp: spec_derive_key_def split: if_splits)

lemma spec_key_id_fields:
  assumes "spec_derive_key r = IdKey d"
  shows "strip (get_field r (py_str ''data_id'')) = d" and "d \<noteq> []"
  using assms by (auto simp: spec_derive_key_def split: if_splits)

lemma derive_key_of_geo:
  assumes "spec_derive_key r = GeoKey t la lo"
  shows "derive_key r = Some (py_str ''tloc:'' @ t @ of_char CHR ''|'' # la @ of_char CHR ''|'' # lo)"
  using derive_key_geo[of r] spec_key_geo_fields[OF assms] by simp

lemma derive_key_of_id:
  assumes "spec_derive_key r = IdKey d"
  shows "derive_key r = Some (py_str ''did:'' @ d)"
  using derive_key_id[of r] spec_key_id_fields[OF assms] by simp

text \<open>
  Claim C1, amended. Two geometry keys whose trimmed latitude and longitude contain no
  vertical bar (the separator the source joins the three fields with) are equal exactly
  when the trimmed title, latitude and longitude agree componentwise. Two identifier keys
  are equal exactly when the trimmed \<open>data_id\<close> agree. An identifier key never equals a
  geometry key. Rows whose \<open>data_id\<close> differ only in surrounding whitespace get the same
  key. The key is absent in the source exactly when it is absent in the specification.
\<close>

theorem key_equality_tag_sensitive:
  "(spec_derive_key p = GeoKey t1 a1 o1 \<and> spec_derive_key q = GeoKey t2 a2 o2 \<and>
    of_char CHR ''|'' \<notin> set a1 \<union> set o1 \<union> set a2 \<union> set o2 \<longrightarrow>
      (derive_key p = derive_key q \<longleftrightarrow> t1 = t2 \<and> a1 = a2 \<and> o1 = o2)) \<and>
   (spec_derive_key i = IdKey d1 \<and> spec_derive_key j = IdKey d2 \<longrightarrow>
      (derive_key i = derive_key j \<longleftrightarrow> d1 = d2)) \<and>
   (spec_derive_key i = IdKey d1 \<and> spec_derive_key p = GeoKey t1 a1 o1 \<longrightarrow>
      derive_key i \<noteq> derive_key p) \<and>
   (i (py_str ''data_id'') = Some d \<and> j (py_str ''data_id'') = Some (a @ d @ b) \<and>
    list_all isspace a \<and> list_all isspace b \<and> strip d \<noteq> [] \<longrightarrow>
      derive_key i = derive_key j) \<and>
   (derive_key p = None \<longleftrightarrow> spec_derive_key p = Absent)"
proof (intro conjI impI)
  assume h: "spec_derive_key p = GeoKey t1 a1 o1 \<and> spec_derive_key q = GeoKey t2 a2 o2 \<and>
    of_char CHR ''|'' \<notin> set a1 \<union> set o1 \<union> set a2 \<union> set o2"
  then have kp: "derive_key p
      = Some (py_str ''tloc:'' @ t1 @ of_char CHR ''|'' # a1 @ of_char CHR ''|'' # o1)"
    and kq: "derive_key q
      = Some (py_str ''tloc:'' @ t2 @ of_char CHR ''|'' # a2 @ of_char CHR ''|'' # o2)"
    by (simp_all add: derive_key_of_geo)
  have bars: "of_char CHR ''|'' \<notin> set a1" "of_char CHR ''|'' \<notin> set o1"
    "of_char CHR ''|'' \<notin> set a2" "of_char CHR ''|'' \<notin> set o2"
    using h by simp_all
  show "derive_key p = derive_key q \<longleftrightarrow> t1 = t2 \<and> a1 = a2 \<and> o1 = o2"
  proof
    assume "derive_key p = derive_key q"
    then have "t1 @ of_char CHR ''|'' # a1 @ of_char CHR ''|'' # o1
        = t2 @ of_char CHR ''|'' # a2 @ of_char CHR ''|'' # o2"
      unfolding kp kq by simp
    then show "t1 = t2 \<and> a1 = a2 \<and> o1 = o2"
      using bars by (rule geo_join_inj)
  next
    assume "t1 = t2 \<and> a1 = a2 \<and> o1 = o2"
    then show "derive_key p = derive_key q" unfolding kp kq by simp
  qed
next
  assume "spec_derive_key i = IdKey d1 \<and> spec_derive_key j = IdKey d2"
  then show "derive_key i = derive_key j \<longleftrightarrow> d1 = d2"
    by (simp add: derive_key_of_id)
next
  assume "spec_derive_key i = IdKey d1 \<and> spec_derive_key p = GeoKey t1 a1 o1"
  then show "derive_key i \<noteq> derive_key p"
    using prefixes_differ by (simp add: derive_key_of_id derive_key_of_geo)
next
  assume h: "i (py_str ''data_id'') = Some d \<and> j (py_str ''data_id'') = Some (a @ d @ b) \<and>
    list_all isspace a \<and> list_all isspace b \<and> strip d \<noteq> []"
  then have gi: "get_field i (py_str ''data_id'') = d"
    and gj: "get_field j (py_str ''data_id'') = a @ d @ b"
    by (simp_all add: get_field_def)
  have sj: "strip (a @ d @ b) = strip d"
    using h by (intro strip_surround) simp_all
  have "derive_key i = Some (py_str ''did:'' @ strip d)"
    using derive_key_id[of i] h unfolding gi by simp
  moreover have "derive_key j = Some (py_str ''did:'' @ strip d)"
    using derive_key_id[of j] h unfolding gj sj by simp
  ultimately show "derive_key i = derive_key j" by simp
next
  show "derive_key p = None \<longleftrightarrow> spec_derive_key p = Absent"
    by (simp add: spec_key_absent)
qed

lemma spec_keys_of_examples:
  "spec_derive_key row_abc = IdKey (py_str ''abc'')"
  "spec_derive_key row_abc_padded = IdKey (py_str ''abc'')"
  "spec_derive_key row_X = GeoKey (py_str ''X'') (py_str ''1.3'') (py_str ''103.8'')"
  "spec_derive_key row_X_zeros = GeoKey (py_str ''X'') (py_str ''1.3000'') (py_str ''103.8'')"
  by (simp_all add: spec_derive_key_def row_abc_def row_abc_padded_def row_X_def
      row_X_zeros_def get_field_def strip_def isspace_def py_str_def)

lemma example_no_bars:
  "of_char CHR ''|'' \<notin> set (py_str ''1.3'') \<union> set (py_str ''103.8'')
     \<union> set (py_str ''1.3000'') \<union> set (py_str ''103.8'')"
  by (simp add: py_str_def)

lemma example_padding:
  "row_abc (py_str ''data_id'') = Some (py_str ''abc'')"
  "row_abc_padded (py_str ''data_id'') = Some (py_str '' '' @ py_str ''abc'' @ py_str '' '')"
  "list_all isspace (py_str '' '')"
  "strip (py_str ''abc'') \<noteq> []"
  by (simp_all add: row_abc_def row_abc_padded_def strip_def isspace_def py_str_def)

theorem key_equality_tag_sensitive_witness:
  "spec_derive_key row_X = GeoKey (py_str ''X'') (py_str ''1.3'') (py_str ''103.8'') \<and>
   spec_derive_key row_X_zeros = GeoKey (py_str ''X'') (py_str ''1.3000'') (py_str ''103.8'') \<and>
   of_char CHR ''|'' \<notin> set (py_str ''1.3'') \<union> set (py_str ''103.8'')
     \<union> set (py_str ''1.3000'') \<union> set (py_str ''103.8'') \<and>
   derive_key row_X \<noteq> derive_key row_X_zeros \<and>
   spec_derive_key row_abc = IdKey (py_str ''abc'') \<and>
   spec_derive_key row_abc_padded = IdKey (py_str ''abc'') \<and>
   derive_key row_abc = derive_key row_abc_padded \<and>
   derive_key row_abc \<noteq> derive_key row_X \<and>
   row_abc (py_str ''data_id'') = Some (py_str ''abc'') \<and>
   row_abc_padded (py_str ''data_id'') = Some (py_str '' '' @ py_str ''abc'' @ py_str '' '') \<and>
   list_all isspace (py_str '' '') \<and> strip (py_str ''abc'') \<noteq> []"
proof -
  have ne: "py_str ''1.3'' \<noteq> py_str ''1.3000''" by (simp add: py_str_def)
  show ?thesis
    using key_equality_tag_sensitive[of row_X "py_str ''X''" "py_str ''1.3''" "py_str ''103.8''"
        row_X_zeros "py_str ''X''" "py_str ''1.3000''" "py_str ''103.8''"
        row_abc "py_str ''abc''" row_abc_padded "py_str ''abc''" "py_str ''abc''"
        "py_str '' ''" "py_str '' ''"]
      spec_keys_of_examples example_no_bars example_padding ne
    by blast
qed

section \<open>Properties of point\_in\_polygon\<close>

lemma py_truediv_ok: "b \<noteq> 0 \<Longrightarrow> py_truediv a b = Inr (a / b)"
  by (simp add: py_truediv_def)

lemma edge_crosses_total: "\<exists>c. edge_crosses lat lon vi vj = Inr c"
  by (cases vi; cases vj) (auto simp: edge_crosses_def py_truediv_def)

lemma edge_crosses_degenerate: "fst vi = fst vj \<Longrightarrow> edge_crosses lat lon vi vj = Inr False"
  by (cases vi; cases vj) (simp add: edge_crosses_def)

lemma point_in_polygon_loop_total:
  "\<exists>b. point_in_polygon_loop lat lon polygon idxs j inside = Inr b"
proof (induction idxs arbitrary: j inside)
  case Nil
  then show ?case by simp
next
  case (Cons i idxs)
  obtain c where "edge_crosses lat lon (polygon ! i) (polygon ! j) = Inr c"
    using edge_crosses_total by blast
  then show ?case using Cons.IH by simp
qed

lemma point_in_polygon_total: "\<exists>b. point_in_polygon lat lon polygon = Inr b"
  unfolding point_in_polygon_def Let_def by (rule point_in_polygon_loop_total)

lemma point_in_any_polygon_total: "\<exists>b. point_in_any_polygon lat lon polygons = Inr b"
proof (induction polygons)
  case Nil
  then show ?case by auto
next
  case (Cons poly polygons)
  obtain b where "point_in_polygon lat lon poly = Inr b"
    using point_in_polygon_total by blast
  then show ?case using Cons.IH by (cases b) auto
qed

lemma rectangles_explicit:
  "rectangles lat_lo lat_hi lon_lo lon_hi =
    [[(lat_lo, lon_lo), (lat_lo, lon_hi), (lat_hi, lon_hi), (lat_hi, lon_lo)],
     [(lat_lo, lon_hi), (lat_hi, lon_hi), (lat_hi, lon_lo), (lat_lo, lon_lo)],
     [(lat_hi, lon_hi), (lat_hi, lon_lo), (lat_lo, lon_lo), (lat_lo, lon_hi)],
     [(lat_hi, lon_lo), (lat_lo, lon_lo), (lat_lo, lon_hi), (lat_hi, lon_hi)],
     [(lat_hi, lon_lo), (lat_hi, lon_hi), (lat_lo, lon_hi), (lat_lo, lon_lo)],
     [(lat_hi, lon_hi), (lat_lo, lon_hi), (lat_lo, lon_lo), (lat_hi, lon_lo)],
     [(lat_lo, lon_hi), (lat_lo, lon_lo), (lat_hi, lon_lo), (lat_hi, lon_hi)],
     [(lat_lo, lon_lo), (lat_hi, lon_lo), (lat_hi, lon_hi), (lat_lo, lon_hi)]]"
  by (simp add: rectangles_def rectangle_def rotate_def numeral_2_eq_2 numeral_3_eq_3)

lemma rectangle_inside:
  assumes "poly \<in> set (rectangles lat_lo lat_hi lon_lo lon_hi)"
    and "lat_lo < lat" "lat < lat_hi" "lon_lo < lon" "lon < lon_hi"
  shows "point_in_polygon lat lon poly = Inr True"
  using assms unfolding rectangles_explicit
  by (auto simp: point_in_polygon_def edge_crosses_def py_truediv_def upt_rec)

lemma rectangle_outside:
  assumes "poly \<in> set (rectangles lat_lo lat_hi lon_lo lon_hi)"
    and "lat_lo < lat_hi" "lon_lo < lon_hi"
    and "lat < lat_lo \<or> lat_hi < lat \<or> lon < lon_lo \<or> lon_hi < lon"
  shows "point_in_polygon lat lon poly = Inr False"
  using assms unfolding rectangles_explicit
  by (auto simp: point_in_polygon_def edge_crosses_def py_truediv_def upt_rec)


text \<open>
  Claim C4. \<open>point_in_polygon\<close> returns a boolean for every point and every polygon: no
  edge raises. An edge whose two vertices have the same latitude never toggles
  \<open>inside\<close>, and whenever the left operand of the \<open>and\<close> holds, so that the division is
  evaluated, the latitude delta it divides by is not zero.
\<close>

theorem point_in_polygon_total_no_division_error:
  "(\<exists>b. point_in_polygon lat lon polygon = Inr b) \<and>
   (\<exists>c. edge_crosses lat lon vi vj = Inr c) \<and>
   (fst vi = fst vj \<longrightarrow> edge_crosses lat lon vi vj = Inr False) \<and>
   ((yi > lat) \<noteq> (yj > lat) \<longrightarrow>
      yj - yi \<noteq> 0 \<and>
      py_truediv ((xj - xi) * (lat - yi)) (yj - yi) = Inr ((xj - xi) * (lat - yi) / (yj - yi)))"
proof (intro conjI impI)
  show "\<exists>b. point_in_polygon lat lon polygon = Inr b"
    by (rule point_in_polygon_total)
  show "\<exists>c. edge_crosses lat lon vi vj = Inr c"
    by (rule edge_crosses_total)
  show "edge_crosses lat lon vi vj = Inr False" if "fst vi = fst vj"
    using that by (rule edge_crosses_degenerate)
  assume g: "(yi > lat) \<noteq> (yj > lat)"
  then show d: "yj - yi \<noteq> 0" by auto
  then show "py_truediv ((xj - xi) * (lat - yi)) (yj - yi)
      = Inr ((xj - xi) * (lat - yi) / (yj - yi))"
    by (rule py_truediv_ok)
qed

lemma SENTOSA_inside_example: "point_in_polygon 1.245 103.84 SENTOSA = Inr True"
  by (simp add: point_in_polygon_def SENTOSA_def edge_crosses_def py_truediv_def upt_rec)

theorem point_in_polygon_total_no_division_error_witness:
  "point_in_polygon 1.245 103.84 SENTOSA = Inr True \<and>
   fst (1.240 :: real, 103.825 :: real) = fst (1.240 :: real, 103.860 :: real) \<and>
   edge_crosses 1.245 103.84 (1.240, 103.825) (1.240, 103.860) = Inr False \<and>
   ((1.252 :: real) > 1.245) \<noteq> ((1.240 :: real) > 1.245) \<and>
   py_truediv ((103.860 - 103.860) * (1.245 - 1.252)) (1.240 - 1.252) = Inr 0"
  using point_in_polygon_total_no_division_error[of "1.245" "103.84" SENTOSA
      "(1.240, 103.825)" "(1.240, 103.860)" "1.252" "1.240" "103.860" "103.860"]
    SENTOSA_inside_example
  by simp

text \<open>
  Claim C5. For an axis-aligned rectangle given by its four corners (from any starting
  corner, in either direction), \<open>point_in_polygon\<close> is true at every point strictly inside
  and false at every point strictly outside. Points on an edge are not constrained.
\<close>

theorem rectangle_containment:
  "poly \<in> set (rectangles lat_lo lat_hi lon_lo lon_hi) \<Longrightarrow> lat_lo < lat_hi \<Longrightarrow>
   lon_lo < lon_hi \<Longrightarrow>
   (lat_lo < lat \<and> lat < lat_hi \<and> lon_lo < lon \<and> lon < lon_hi \<longrightarrow>
      point_in_polygon lat lon poly = Inr True) \<and>
   (lat' < lat_lo \<or> lat_hi < lat' \<or> lon' < lon_lo \<or> lon_hi < lon' \<longrightarrow>
      point_in_polygon lat' lon' poly = Inr False)"
  using rectangle_inside[of poly lat_lo lat_hi lon_lo lon_hi lat lon]
    rectangle_outside[of poly lat_lo lat_hi lon_lo lon_hi lat' lon']
  by blast

lemma SENTOSA_rectangle: "SENTOSA \<in> set (rectangles 1.240 1.252 103.825 103.860)"
  by (simp add: rectangles_explicit SENTOSA_def)

theorem rectangle_containment_witness:
  "SENTOSA \<in> set (rectangles 1.240 1.252 103.825 103.860) \<and>
   (1.240 :: real) < 1.252 \<and> (103.825 :: real) < 103.860 \<and>
   (1.240 :: real) < 1.245 \<and> (1.245 :: real) < 1.252 \<and>
   (103.825 :: real) < 103.84 \<and> (103.84 :: real) < 103.860 \<and>
   point_in_polygon 1.245 103.84 SENTOSA = Inr True \<and>
   (1.252 :: real) < 1.3 \<and>
   point_in_polygon 1.3 103.84 SENTOSA = Inr False"
  using rectangle_containment[OF SENTOSA_rectangle, of "1.245" "103.84" "1.3" "103.84"]
    SENTOSA_rectangle
  by simp

section \<open>Properties of generate\_grid\<close>

subsection \<open>Bounds on the cosine of the reference latitude\<close>

lemma cos_lower_2: "1 - x\<^sup>2 / 2 \<le> cos (x::real)"
proof -
  have "cos x = 1 - 2 * (sin (x / 2))\<^sup>2"
    using cos_double_sin[of "x / 2"] by simp
  moreover have "(sin (x / 2))\<^sup>2 \<le> (x / 2)\<^sup>2"
    using abs_sin_x_le_abs_x[of "x / 2"] by (simp add: abs_le_square_iff[symmetric])
  ultimately show ?thesis by (simp add: power2_eq_square)
qed

lemma sum_lessThan_4: "(\<Sum>m<4::nat. f m) = f 0 + f 1 + f 2 + (f 3 :: real)"
  by (simp add: numeral_eq_Suc)

lemma sum_lessThan_6: "(\<Sum>m<6::nat. f m) = f 0 + f 1 + f 2 + f 3 + f 4 + (f 5 :: real)"
  by (simp add: numeral_eq_Suc)

lemma cos_coeff_values:
  "cos_coeff (Suc 0) = 0" "cos_coeff 1 = 0" "cos_coeff 2 = - 1 / 2" "cos_coeff 3 = 0" "cos_coeff 4 = 1 / 24"
  "cos_coeff 5 = 0"
  by (simp_all add: cos_coeff_def fact_numeral)

lemma cos_upper_4:
  assumes "0 < (x::real)"
  shows "cos x \<le> 1 - x\<^sup>2 / 2 + x ^ 4 / 24"
proof -
  obtain t where t: "cos x = (\<Sum>m<4. cos_coeff m * x ^ m) + (cos (t + 1/2 * real 4 * pi) / fact 4) * x ^ 4"
    using Maclaurin_cos_expansion2[OF assms, of 4] by auto
  have s: "(\<Sum>m<4. cos_coeff m * x ^ m) = 1 - x\<^sup>2 / 2"
    unfolding sum_lessThan_4 by (simp add: cos_coeff_values)
  have "cos (t + 1/2 * real 4 * pi) = cos t"
    by simp
  then have "cos x = 1 - x\<^sup>2 / 2 + cos t / 24 * x ^ 4"
    using t s by (simp add: fact_numeral)
  moreover have "cos t / 24 * x ^ 4 \<le> 1 / 24 * x ^ 4"
    by (intro mult_right_mono divide_right_mono) simp_all
  ultimately show ?thesis by simp
qed

lemma cos_lower_6:
  assumes "0 < (x::real)"
  shows "1 - x\<^sup>2 / 2 + x ^ 4 / 24 - x ^ 6 / 720 \<le> cos x"
proof -
  obtain t where t: "cos x = (\<Sum>m<6. cos_coeff m * x ^ m) + (cos (t + 1/2 * real 6 * pi) / fact 6) * x ^ 6"
    using Maclaurin_cos_expansion2[OF assms, of 6] by auto
  have s: "(\<Sum>m<6. cos_coeff m * x ^ m) = 1 - x\<^sup>2 / 2 + x ^ 4 / 24"
    unfolding sum_lessThan_6 by (simp add: cos_coeff_values)
  have "cos (t + 1/2 * real 6 * pi) = cos ((t + pi) + 2 * pi)"
    by (simp add: algebra_simps)
  also have "\<dots> = cos (t + pi)" by (rule cos_periodic)
  also have "\<dots> = - cos t" by (rule cos_periodic_pi)
  finally have "cos (t + 1/2 * real 6 * pi) = - cos t" .
  then have "cos x = 1 - x\<^sup>2 / 2 + x ^ 4 / 24 - cos t / 720 * x ^ 6"
    using t s by (simp add: fact_numeral)
  moreover have "cos t / 720 * x ^ 6 \<le> 1 / 720 * x ^ 6"
    by (intro mult_right_mono divide_right_mono) simp_all
  ultimately show ?thesis by simp
qed


lemma sq_le: "0 \<le> (t::real) \<Longrightarrow> t \<le> a \<Longrightarrow> t * t \<le> a * a"
  by (rule mult_mono) simp_all

lemma sq_ge: "0 \<le> (a::real) \<Longrightarrow> a \<le> t \<Longrightarrow> a * a \<le> t * t"
  by (rule mult_mono) simp_all

lemma pi_third_squared_bounds:
  "1.0959 \<le> (pi / 3) * (pi / 3)" "(pi / 3) * (pi / 3) \<le> 1.1013"
proof -
  define y where "y = pi / 3"
  define t where "t = y * y"
  define q where "q = t * t"
  have y0: "0 < y" by (simp add: y_def)
  have t0: "0 \<le> t" by (simp add: t_def)
  have q0: "0 \<le> q" by (simp add: q_def)
  have c: "cos y = 1 / 2" unfolding y_def by (rule cos_60)
  have e2: "y\<^sup>2 = t" by (simp add: t_def power2_eq_square)
  have e4: "y ^ 4 = q" by (simp add: q_def t_def power4_eq_xxxx)
  have e6: "y ^ 6 = q * t" by (simp add: q_def t_def numeral_eq_Suc)
  have ku: "t \<le> 1 + q / 12"
    using cos_upper_4[OF y0] unfolding c e2 e4 by simp
  have kl: "1 / 2 + q / 24 \<le> t / 2 + q * t / 720"
    using cos_lower_6[OF y0] unfolding c e2 e4 e6 by simp
  have "y \<le> 4 / 3" using pi_less_4 by (simp add: y_def)
  then have "t \<le> (4 / 3) * (4 / 3)"
    unfolding t_def using y0 by (intro mult_mono) simp_all
  then have u0: "t \<le> 16 / 9" by simp
  have u1: "t \<le> 1.264" using ku sq_le[OF t0 u0, folded q_def] by simp
  have u2: "t \<le> 1.1332" using ku sq_le[OF t0 u1, folded q_def] by simp
  have u3: "t \<le> 1.1071" using ku sq_le[OF t0 u2, folded q_def] by simp
  have u4: "t \<le> 1.1022" using ku sq_le[OF t0 u3, folded q_def] by simp
  have u5: "t \<le> 1.1013" using ku sq_le[OF t0 u4, folded q_def] by simp
  have "q * t \<le> (1.1013 * 1.1013) * t"
    using sq_le[OF t0 u5, folded q_def] t0 by (intro mult_right_mono) simp_all
  then have "q * t / 720 \<le> t * 0.001685"
    using t0 by simp
  then have kl': "1 / 2 + q / 24 \<le> t * 0.501685"
    using kl by simp
  have l0: "0.9966 \<le> t" using kl' q0 by simp
  have l1: "1.079 \<le> t" using kl' sq_ge[OF _ l0, folded q_def] by simp
  have l2: "1.0933 \<le> t" using kl' sq_ge[OF _ l1, folded q_def] by simp
  have l3: "1.0959 \<le> t" using kl' sq_ge[OF _ l2, folded q_def] by simp
  show "1.0959 \<le> (pi / 3) * (pi / 3)" using l3 by (simp add: t_def y_def)
  show "(pi / 3) * (pi / 3) \<le> 1.1013" using u5 by (simp add: t_def y_def)
qed

lemma cos_reference_latitude_bounds:
  "0.99972123 \<le> cos (1.35 * pi / 180)" "cos (1.35 * pi / 180) \<le> 0.99972262"
proof -
  define t where "t = (pi / 3) * (pi / 3)"
  define x where "x = 1.35 * pi / 180"
  have t: "1.0959 \<le> t" "t \<le> 1.1013"
    unfolding t_def by (rule pi_third_squared_bounds)+
  have x0: "0 < x" by (simp add: x_def)
  have x2: "x\<^sup>2 = 0.00050625 * t"
    by (simp add: x_def t_def power2_eq_square)
  have "x ^ 4 = x\<^sup>2 * x\<^sup>2"
    by (simp add: power4_eq_xxxx power2_eq_square)
  then have x4: "x ^ 4 = (0.00050625 * t) * (0.00050625 * t)"
    by (simp only: x2)
  have tt: "t * t \<le> 1.1013 * 1.1013"
    using t by (intro mult_mono) simp_all
  show "0.99972123 \<le> cos (1.35 * pi / 180)"
    using cos_lower_2[of x] t unfolding x2 by (simp add: x_def)
  show "cos (1.35 * pi / 180) \<le> 0.99972262"
    using cos_upper_4[OF x0] t tt unfolding x2 x4 by (simp add: x_def)
qed



subsection \<open>The loops\<close>

lemma lon_loop_step:
  "lon_loop lon_step lat lon points =
     (if lon \<le> lon_max
      then lon_loop lon_step lat (lon + lon_step)
             (if on_land lat lon then points @ [(round6 lat, round6 lon)] else points)
      else Some (Inr points))"
proof -
  obtain b where b: "point_in_any_polygon lat lon POLYGONS = Inr b"
    using point_in_any_polygon_total by blast
  show ?thesis
    by (subst lon_loop.simps) (simp add: b on_land_def)
qed

lemma lon_loop_row_points:
  "lon_max < lon + real n * lon_step \<Longrightarrow>
   lon_loop lon_step lat lon points = Some (Inr (points @ row_points n lon_step lat lon))"
proof (induction n arbitrary: lon points)
  case 0
  then show ?case by (subst lon_loop_step) simp
next
  case (Suc n)
  have "lon_max < (lon + lon_step) + real n * lon_step"
    using Suc.prems by (simp add: algebra_simps)
  then have "lon_loop lon_step lat (lon + lon_step) pts
      = Some (Inr (pts @ row_points n lon_step lat (lon + lon_step)))" for pts
    by (rule Suc.IH)
  then show ?case by (subst lon_loop_step) simp
qed

lemma lat_loop_grid_points:
  "lat_max < lat + real n * lat_step \<Longrightarrow> lon_max < lon_min + real m * lon_step \<Longrightarrow>
   lat_loop lat_step lon_step lat points
     = Some (Inr (points @ grid_points n m lat_step lon_step lat))"
proof (induction n arbitrary: lat points)
  case 0
  then show ?case by (subst lat_loop.simps) simp
next
  case (Suc n)
  have "lat_max < (lat + lat_step) + real n * lat_step"
    using Suc.prems(1) by (simp add: algebra_simps)
  then have ih: "lat_loop lat_step lon_step (lat + lat_step) pts
      = Some (Inr (pts @ grid_points n m lat_step lon_step (lat + lat_step)))" for pts
    using Suc.prems(2) by (rule Suc.IH)
  have row: "lon_loop lon_step lat lon_min points
      = Some (Inr (points @ row_points m lon_step lat lon_min))"
    using Suc.prems(2) by (rule lon_loop_row_points)
  show ?case by (subst lat_loop.simps) (simp add: row ih)
qed

lemma lon_loop_diverges:
  assumes "lon_step \<le> 0" and "lon \<le> lon_max"
  shows "lon_loop lon_step lat lon points = None"
proof (rule ccontr)
  assume "lon_loop lon_step lat lon points \<noteq> None"
  then obtain r where r: "lon_loop lon_step lat lon points = Some r" by auto
  have step: "a = lon_step \<longrightarrow> \<not> c \<le> lon_max"
    if ih: "\<And>a' b' c' d' y'. f a' b' c' d' = Some y' \<Longrightarrow> a' = lon_step \<longrightarrow> \<not> c' \<le> lon_max"
      and body: "(if c \<le> lon_max then
          (case point_in_any_polygon b c POLYGONS of
             Inl e \<Rightarrow> Some (Inl e)
           | Inr inside \<Rightarrow>
               f a b (c + a) (if inside then d @ [(round6 b, round6 c)] else d))
        else Some (Inr d)) = Some y"
    for f a b c d y
  proof (intro impI notI)
    assume a: "a = lon_step" and c: "c \<le> lon_max"
    obtain on where on: "point_in_any_polygon b c POLYGONS = Inr on"
      using point_in_any_polygon_total by blast
    from body c on have "f a b (c + a) (if on then d @ [(round6 b, round6 c)] else d) = Some y"
      by simp
    from ih[OF this] a have "\<not> c + lon_step \<le> lon_max" by simp
    with c assms(1) show False by simp
  qed
  have "lon_step = lon_step \<longrightarrow> \<not> lon \<le> lon_max"
    by (rule lon_loop.raw_induct[where P = "\<lambda>a b c d y. a = lon_step \<longrightarrow> \<not> c \<le> lon_max",
          OF step r])
  with assms(2) show False by simp
qed

lemma lon_divisor_positive: "0 < 111320 * cos (radians lat_center)"
  using cos_reference_latitude_bounds(1) by (simp add: radians_def lat_center_def)

lemma generate_grid_diverges:
  assumes "spacing_m \<le> 0"
  shows "generate_grid spacing_m = None"
proof -
  have "spacing_m / (111320 * cos (radians lat_center)) \<le> 0"
    using assms lon_divisor_positive by (simp add: divide_le_0_iff)
  then have "lon_loop (spacing_m / (111320 * cos (radians lat_center))) lat_min lon_min []
      = None"
    by (rule lon_loop_diverges) (simp add: lon_min_def lon_max_def)
  then show ?thesis
    unfolding generate_grid_def Let_def
    by (subst lat_loop.simps) (simp add: lat_min_def lat_max_def)
qed

lemma generate_grid_returns:
  assumes "0 < spacing_m"
  shows "\<exists>n m. lat_max < lat_min + real n * (spacing_m / 111320) \<and>
    lon_max < lon_min + real m * (spacing_m / (111320 * cos (radians lat_center))) \<and>
    generate_grid spacing_m = Some (Inr (grid_points n m (spacing_m / 111320)
      (spacing_m / (111320 * cos (radians lat_center))) lat_min))"
proof -
  have "0 < spacing_m / 111320" using assms by simp
  then obtain n where n: "lat_max - lat_min < real n * (spacing_m / 111320)"
    using ex_less_of_nat_mult by blast
  have "0 < spacing_m / (111320 * cos (radians lat_center))"
    using assms lon_divisor_positive by simp
  then obtain m where
    m: "lon_max - lon_min < real m * (spacing_m / (111320 * cos (radians lat_center)))"
    using ex_less_of_nat_mult by blast
  have "lat_max < lat_min + real n * (spacing_m / 111320)" using n by simp
  moreover have "lon_max < lon_min + real m * (spacing_m / (111320 * cos (radians lat_center)))"
    using m by simp
  ultimately show ?thesis
    unfolding generate_grid_def Let_def
    using lat_loop_grid_points[where lat = lat_min and n = n and m = m and points = "[]"
        and lat_step = "spacing_m / 111320"
        and lon_step = "spacing_m / (111320 * cos (radians lat_center))"]
    by auto
qed


lemma row_points_sound:
  "p \<in> set (row_points n lon_step lat lon) \<Longrightarrow>
   \<exists>j<n. p = (round6 lat, round6 (lon + real j * lon_step)) \<and>
     on_land lat (lon + real j * lon_step) \<and> lon + real j * lon_step \<le> lon_max"
proof (induction n arbitrary: lon)
  case 0
  then show ?case by simp
next
  case (Suc n)
  from Suc.prems have le: "lon \<le> lon_max"
    by (auto split: if_splits)
  from Suc.prems le consider
      (head) "on_land lat lon" "p = (round6 lat, round6 lon)"
    | (tail) "p \<in> set (row_points n lon_step lat (lon + lon_step))"
    by (auto split: if_splits)
  then show ?case
  proof cases
    case head
    with le show ?thesis by (intro exI[of _ 0]) simp
  next
    case tail
    from Suc.IH[OF tail] obtain j where j: "j < n"
      "p = (round6 lat, round6 (lon + lon_step + real j * lon_step))"
      "on_land lat (lon + lon_step + real j * lon_step)"
      "lon + lon_step + real j * lon_step \<le> lon_max"
      by blast
    have e: "lon + lon_step + real j * lon_step = lon + real (Suc j) * lon_step"
      by (simp add: algebra_simps)
    show ?thesis
      using j unfolding e by (intro exI[of _ "Suc j"]) simp
  qed
qed

lemma grid_points_sound:
  "p \<in> set (grid_points n m lat_step lon_step lat) \<Longrightarrow>
   \<exists>i<n. \<exists>j<m. p = (round6 (lat + real i * lat_step), round6 (lon_min + real j * lon_step)) \<and>
     on_land (lat + real i * lat_step) (lon_min + real j * lon_step) \<and>
     lat + real i * lat_step \<le> lat_max \<and> lon_min + real j * lon_step \<le> lon_max"
proof (induction n arbitrary: lat)
  case 0
  then show ?case by simp
next
  case (Suc n)
  from Suc.prems have le: "lat \<le> lat_max"
    by (auto split: if_splits)
  from Suc.prems le consider
      (row) "p \<in> set (row_points m lon_step lat lon_min)"
    | (rest) "p \<in> set (grid_points n m lat_step lon_step (lat + lat_step))"
    by (auto split: if_splits)
  then show ?case
  proof cases
    case row
    from row_points_sound[OF row] obtain j where "j < m"
      "p = (round6 lat, round6 (lon_min + real j * lon_step))"
      "on_land lat (lon_min + real j * lon_step)" "lon_min + real j * lon_step \<le> lon_max"
      by blast
    with le show ?thesis
      by (intro exI[of _ 0]) auto
  next
    case rest
    from Suc.IH[OF rest] obtain i j where ij: "i < n" "j < m"
      "p = (round6 (lat + lat_step + real i * lat_step), round6 (lon_min + real j * lon_step))"
      "on_land (lat + lat_step + real i * lat_step) (lon_min + real j * lon_step)"
      "lat + lat_step + real i * lat_step \<le> lat_max" "lon_min + real j * lon_step \<le> lon_max"
      by blast
    have e: "lat + lat_step + real i * lat_step = lat + real (Suc i) * lat_step"
      by (simp add: algebra_simps)
    show ?thesis
      using ij unfolding e by (intro exI[of _ "Suc i"]) auto
  qed
qed

lemma row_points_complete:
  "0 \<le> lon_step \<Longrightarrow> j < n \<Longrightarrow> lon + real j * lon_step \<le> lon_max \<Longrightarrow>
   on_land lat (lon + real j * lon_step) \<Longrightarrow>
   (round6 lat, round6 (lon + real j * lon_step)) \<in> set (row_points n lon_step lat lon)"
proof (induction n arbitrary: lon j)
  case 0
  then show ?case by simp
next
  case (Suc n)
  have "0 \<le> real j * lon_step" using Suc.prems(1) by simp
  then have le: "lon \<le> lon_max" using Suc.prems(3) by linarith
  show ?case
  proof (cases j)
    case 0
    with Suc.prems le show ?thesis by simp
  next
    case (Suc j')
    have e: "lon + real j * lon_step = lon + lon_step + real j' * lon_step"
      by (simp add: Suc algebra_simps)
    have "(round6 lat, round6 (lon + lon_step + real j' * lon_step))
        \<in> set (row_points n lon_step lat (lon + lon_step))"
      using Suc.prems Suc unfolding e by (intro Suc.IH) simp_all
    then show ?thesis using le unfolding e by simp
  qed
qed

lemma grid_points_complete:
  "0 \<le> lat_step \<Longrightarrow> i < n \<Longrightarrow> lat + real i * lat_step \<le> lat_max \<Longrightarrow>
   p \<in> set (row_points m lon_step (lat + real i * lat_step) lon_min) \<Longrightarrow>
   p \<in> set (grid_points n m lat_step lon_step lat)"
proof (induction n arbitrary: lat i)
  case 0
  then show ?case by simp
next
  case (Suc n)
  have "0 \<le> real i * lat_step" using Suc.prems(1) by simp
  then have le: "lat \<le> lat_max" using Suc.prems(3) by linarith
  show ?case
  proof (cases i)
    case 0
    with Suc.prems le show ?thesis by simp
  next
    case (Suc i')
    have e: "lat + real i * lat_step = lat + lat_step + real i' * lat_step"
      by (simp add: Suc algebra_simps)
    have "p \<in> set (grid_points n m lat_step lon_step (lat + lat_step))"
      using Suc.prems Suc unfolding e by (intro Suc.IH) simp_all
    then show ?thesis using le by simp
  qed
qed

lemma on_land_near_north_coast:
  assumes "103.8384519 < lon" "lon < 103.8384524"
  shows "point_in_any_polygon (1.20 + 29100 / 111320) lon POLYGONS = Inr True"
  using assms
  by (simp add: POLYGONS_def point_in_polygon_def MAIN_ISLAND_def edge_crosses_def
      py_truediv_def upt_rec)

lemma rounded_point_off_land:
  "point_in_any_polygon 1.461409 103.838452 POLYGONS = Inr False"
  by (simp add: POLYGONS_def point_in_polygon_def MAIN_ISLAND_def SENTOSA_def JURONG_ISLAND_def
      PULAU_UBIN_def PULAU_TEKONG_def edge_crosses_def py_truediv_def upt_rec)


lemma round_half_even_nearest:
  assumes "of_int n - 1 / 2 < x" "x < of_int n + 1 / 2"
  shows "round_half_even x = n"
proof (cases "of_int n \<le> x")
  case True
  then have "\<lfloor>x\<rfloor> = n" using assms(2) by (intro floor_unique) simp_all
  then show ?thesis using assms(2) by (simp add: round_half_even_def)
next
  case False
  then have "\<lfloor>x\<rfloor> = n - 1" using assms(1) by (intro floor_unique) simp_all
  then show ?thesis using assms(1) by (simp add: round_half_even_def)
qed

lemma round6_nearest:
  assumes "of_int n - 1 / 2 < x * 10 ^ 6" "x * 10 ^ 6 < of_int n + 1 / 2"
  shows "round6 x = of_int n / 10 ^ 6"
  unfolding round6_def round_half_even_nearest[OF assms] ..

lemma grid_50_lat: "round6 (lat_min + real 582 * (50 / 111320)) = 1.461409"
  by (simp add: lat_min_def round6_def round_half_even_def)

lemma grid_50_lon_bounds:
  "103.8384519 < lon_min + real 553 * (50 / (111320 * cos (radians lat_center)))"
  "lon_min + real 553 * (50 / (111320 * cos (radians lat_center))) < 103.8384524"
proof -
  define c where "c = cos (radians lat_center)"
  have c: "0.99972123 \<le> c" "c \<le> 0.99972262"
    using cos_reference_latitude_bounds by (simp_all add: c_def radians_def lat_center_def)
  then have c0: "0 < c" by simp
  have "0.2484519 * (111320 * c) < 27650" using c(2) by simp
  then have "0.2484519 < 27650 / (111320 * c)"
    using c0 by (simp add: pos_less_divide_eq)
  then show "103.8384519 < lon_min + real 553 * (50 / (111320 * cos (radians lat_center)))"
    by (simp add: lon_min_def c_def)
  have "27650 < 0.2484524 * (111320 * c)" using c(1) by simp
  then have "27650 / (111320 * c) < 0.2484524"
    using c0 by (simp add: pos_divide_less_eq)
  then show "lon_min + real 553 * (50 / (111320 * cos (radians lat_center))) < 103.8384524"
    by (simp add: lon_min_def c_def)
qed

lemma grid_50_lon:
  "round6 (lon_min + real 553 * (50 / (111320 * cos (radians lat_center)))) = 103.838452"
proof -
  have "round6 (lon_min + real 553 * (50 / (111320 * cos (radians lat_center))))
      = of_int 103838452 / 10 ^ 6"
    using grid_50_lon_bounds by (intro round6_nearest) simp_all
  then show ?thesis by simp
qed

lemma grid_50_returns: "generate_grid 50 = Some (Inr (grid_output 50))"
proof -
  obtain n m where "generate_grid 50 = Some (Inr (grid_points n m (50 / 111320)
      (50 / (111320 * cos (radians lat_center))) lat_min))"
    using generate_grid_returns[of 50] by auto
  then show ?thesis by (simp add: grid_output_def)
qed

lemma grid_50_contains: "(1.461409, 103.838452) \<in> set (grid_output 50)"
proof -
  let ?S = "50 / 111320 :: real"
  let ?L = "50 / (111320 * cos (radians lat_center))"
  obtain n m where n: "lat_max < lat_min + real n * ?S"
    and m: "lon_max < lon_min + real m * ?L"
    and g: "generate_grid 50 = Some (Inr (grid_points n m ?S ?L lat_min))"
    using generate_grid_returns[of 50] by auto
  have L0: "0 < ?L" using lon_divisor_positive by simp
  have S0: "0 \<le> ?S" by simp
  have lat_le: "lat_min + real 582 * ?S \<le> lat_max"
    by (simp add: lat_min_def lat_max_def)
  have lon_le: "lon_min + real 553 * ?L \<le> lon_max"
    using grid_50_lon_bounds(2) by (simp add: lon_max_def)
  have "real 582 * ?S < real n * ?S" using lat_le n by linarith
  then have i: "582 < n" by simp
  have "real 553 * ?L < real m * ?L" using lon_le m by linarith
  then have "real 553 < real m" using L0 by (simp only: mult_less_cancel_right_pos)
  then have j: "553 < m" by simp
  have land: "on_land (lat_min + real 582 * ?S) (lon_min + real 553 * ?L)"
    unfolding on_land_def
    using on_land_near_north_coast[OF grid_50_lon_bounds] by (simp add: lat_min_def)
  have "(round6 (lat_min + real 582 * ?S), round6 (lon_min + real 553 * ?L))
      \<in> set (row_points m ?L (lat_min + real 582 * ?S) lon_min)"
    by (rule row_points_complete[OF less_imp_le[OF L0] j lon_le land])
  then have "(round6 (lat_min + real 582 * ?S), round6 (lon_min + real 553 * ?L))
      \<in> set (grid_points n m ?S ?L lat_min)"
    by (rule grid_points_complete[OF S0 i lat_le])
  then show ?thesis
    unfolding grid_50_lat grid_50_lon by (simp add: grid_output_def g)
qed

text \<open>
  Claim C2 as stated fails: with spacing \<open>50\<close> the point of row 582 and column 553 lies
  on land just south of the north coast; it is appended rounded, and the rounded point
  lies outside every polygon.
\<close>

theorem generate_grid_rounded_point_counterexample:
  "generate_grid 50 = Some (Inr (grid_output 50)) \<and>
   (1.461409, 103.838452) \<in> set (grid_output 50) \<and>
   point_in_any_polygon 1.461409 103.838452 POLYGONS = Inr False"
  using grid_50_returns grid_50_contains rounded_point_off_land by simp

text \<open>
  Claim C2, amended. Every point of the returned sequence is the rounding to six decimals
  of a scanned lattice point inside the bounding box for which \<open>point_in_any_polygon\<close>
  holds: the test is applied to the point before it is rounded.
\<close>

theorem generate_grid_points_tested_before_rounding:
  assumes "generate_grid spacing_m = Some (Inr points)" and "p \<in> set points"
  shows "\<exists>i j. p = (round6 (lat_min + real i * (spacing_m / 111320)),
        round6 (lon_min + real j * (spacing_m / (111320 * cos (radians lat_center))))) \<and>
      point_in_any_polygon (lat_min + real i * (spacing_m / 111320))
        (lon_min + real j * (spacing_m / (111320 * cos (radians lat_center)))) POLYGONS
        = Inr True \<and>
      lat_min + real i * (spacing_m / 111320) \<le> lat_max \<and>
      lon_min + real j * (spacing_m / (111320 * cos (radians lat_center))) \<le> lon_max"
proof -
  have "0 < spacing_m"
    using assms(1) generate_grid_diverges[of spacing_m] by (cases "0 < spacing_m") auto
  then obtain n m where "generate_grid spacing_m = Some (Inr (grid_points n m
      (spacing_m / 111320) (spacing_m / (111320 * cos (radians lat_center))) lat_min))"
    using generate_grid_returns[of spacing_m] by blast
  with assms have "p \<in> set (grid_points n m
      (spacing_m / 111320) (spacing_m / (111320 * cos (radians lat_center))) lat_min)"
    by simp
  from grid_points_sound[OF this] show ?thesis
    unfolding on_land_def by blast
qed

theorem generate_grid_points_tested_before_rounding_witness:
  "generate_grid 50 = Some (Inr (grid_output 50)) \<and>
   (1.461409, 103.838452) \<in> set (grid_output 50) \<and>
   (\<exists>i j. (1.461409, 103.838452) = (round6 (lat_min + real i * (50 / 111320)),
        round6 (lon_min + real j * (50 / (111320 * cos (radians lat_center))))) \<and>
      point_in_any_polygon (lat_min + real i * (50 / 111320))
        (lon_min + real j * (50 / (111320 * cos (radians lat_center)))) POLYGONS
        = Inr True \<and>
      lat_min + real i * (50 / 111320) \<le> lat_max \<and>
      lon_min + real j * (50 / (111320 * cos (radians lat_center))) \<le> lon_max)"
  using generate_grid_points_tested_before_rounding[OF grid_50_returns grid_50_contains]
    grid_50_returns grid_50_contains
  by simp

section \<open>generate\_grid with doubles\<close>

subsection \<open>Rounding to a double\<close>

text \<open>
  Rounding to 53 bits changes a number by at most the fraction \<open>1 / 2 ^ 53\<close> of its magnitude.
\<close>

lemma round_half_even_error: "\<bar>of_int (round_half_even y) - y\<bar> \<le> 1 / 2"
proof -
  have "of_int \<lfloor>y\<rfloor> \<le> y" "y < of_int \<lfloor>y\<rfloor> + 1" by linarith+
  then show ?thesis
    by (auto simp: round_half_even_def Let_def abs_le_iff)
qed

lemma fl_zero: "fl 0 = 0"
  by (simp add: fl_def)

lemma fl_error: "\<bar>fl x - x\<bar> \<le> \<bar>x\<bar> / 2 ^ 53"
proof (cases "x = 0")
  case True
  then show ?thesis by (simp add: fl_def)
next
  case False
  define e where "e = \<lfloor>log 2 \<bar>x\<bar>\<rfloor>"
  define u :: real where "u = 2 powr (of_int e - 52)"
  have u0: "0 < u" by (simp add: u_def)
  have "2 powr (of_int e) \<le> \<bar>x\<bar>"
    using floor_log_eq_powr_iff[of "\<bar>x\<bar>" 2 e] False by (simp add: e_def)
  moreover have "u = 2 powr (of_int e) / 2 ^ 52"
    by (simp add: u_def powr_diff)
  ultimately have ux: "u / 2 \<le> \<bar>x\<bar> / 2 ^ 53"
    by (simp add: field_simps)
  have "fl x = of_int (round_half_even (x / u)) * u"
    using False by (simp add: fl_def e_def u_def Let_def)
  then have "fl x - x = (of_int (round_half_even (x / u)) - x / u) * u"
    using u0 by (simp add: field_simps)
  then have "\<bar>fl x - x\<bar> = \<bar>of_int (round_half_even (x / u)) - x / u\<bar> * u"
    using u0 by (simp add: abs_mult)
  also have "\<dots> \<le> 1 / 2 * u"
    using u0 round_half_even_error[of "x / u"] by (intro mult_right_mono) simp_all
  finally show ?thesis using ux by simp
qed

lemma fl_bounds:
  assumes "0 \<le> x"
  shows fl_lower: "x - x / 2 ^ 53 \<le> fl x" and fl_upper: "fl x \<le> x + x / 2 ^ 53"
proof -
  define d where "d = x / 2 ^ 53"
  have "\<bar>fl x - x\<bar> \<le> d" using fl_error[of x] assms by (simp add: d_def)
  then have "x - d \<le> fl x" "fl x \<le> x + d" by linarith+
  then show "x - x / 2 ^ 53 \<le> fl x" and "fl x \<le> x + x / 2 ^ 53"
    by (simp_all only: d_def)
qed

lemma fl_nonneg: "0 \<le> x \<Longrightarrow> 0 \<le> fl x"
proof -
  assume x: "0 \<le> x"
  have "x / 2 ^ 53 \<le> x" using x by (simp add: field_simps)
  with fl_lower[OF x] show ?thesis by linarith
qed

lemma fl_coarse:
  assumes "0 \<le> x"
  shows fl_ge: "x - x / 10 ^ 9 \<le> fl x" and fl_le: "fl x \<le> x + x / 10 ^ 9"
proof -
  define d where "d = x / 2 ^ 53"
  define e where "e = x / 10 ^ 9"
  have "d \<le> e"
    unfolding d_def e_def using assms by (intro divide_left_mono) simp_all
  moreover have "x - d \<le> fl x" "fl x \<le> x + d"
    unfolding d_def using fl_lower[OF assms] fl_upper[OF assms] .
  ultimately have "x - e \<le> fl x" "fl x \<le> x + e" by linarith+
  then show "x - x / 10 ^ 9 \<le> fl x" and "fl x \<le> x + x / 10 ^ 9"
    unfolding e_def .
qed

text \<open>
  Between \<open>2 ^ n\<close> and \<open>2 ^ (n + 1)\<close> the doubles are the multiples of \<open>2 ^ n / 2 ^ 52\<close>.
\<close>

lemma fl_in_binade:
  assumes "2 ^ n \<le> \<bar>x\<bar>" "\<bar>x\<bar> < 2 ^ Suc n" "n \<le> 52"
  shows "fl x = of_int (round_half_even (x * 2 ^ (52 - n))) / 2 ^ (52 - n)"
proof -
  have "(0::real) < 2 ^ n" by simp
  with assms(1) have x0: "x \<noteq> 0" by linarith
  then have xpos: "0 < \<bar>x\<bar>" by simp
  have p1: "(2::real) powr (real_of_int (int n)) = 2 ^ n"
    using powr_realpow[of 2 n] by simp
  have p2: "(2::real) powr (real_of_int (int n + 1)) = 2 ^ Suc n"
    using powr_realpow[of 2 "Suc n"] by (simp add: add.commute)
  have fle: "\<lfloor>log 2 \<bar>x\<bar>\<rfloor> = int n \<longleftrightarrow>
      2 powr real_of_int (int n) \<le> \<bar>x\<bar> \<and> \<bar>x\<bar> < 2 powr (real_of_int (int n + 1))"
    by (rule floor_log_eq_powr_iff[OF xpos]) simp
  have e: "\<lfloor>log 2 \<bar>x\<bar>\<rfloor> = int n"
    unfolding fle p1 p2 using assms(1,2) by (rule conjI)
  have "real_of_int (int n) - 52 = - real (52 - n)" using assms(3) by simp
  then have "(2::real) powr (of_int (int n) - 52) = 2 powr (- real (52 - n))" by (rule arg_cong)
  also have "\<dots> = 1 / 2 powr (real (52 - n))"
    by (simp only: powr_minus divide_inverse mult_1)
  also have "2 powr (real (52 - n)) = (2::real) ^ (52 - n)"
    by (rule powr_realpow) simp
  finally have u: "(2::real) powr (of_int (int n) - 52) = 1 / 2 ^ (52 - n)" .
  have "fl x = of_int (round_half_even (x / (1 / 2 ^ (52 - n)))) * (1 / 2 ^ (52 - n))"
    using x0 unfolding fl_def e u Let_def by (rule if_not_P)
  then show ?thesis by simp
qed

lemma fl_lon_min: "fl lon_min = 7289498209364214 / 2 ^ 46"
proof -
  have "fl lon_min = of_int (round_half_even (lon_min * 2 ^ (52 - 6))) / 2 ^ (52 - 6)"
    by (rule fl_in_binade) (simp_all add: lon_min_def)
  moreover have "round_half_even (lon_min * 2 ^ (52 - 6)) = 7289498209364214"
    by (rule round_half_even_nearest) (simp_all add: lon_min_def)
  ultimately show ?thesis by simp
qed

subsection \<open>The scan returns for a spacing of at least one metre\<close>

text \<open>
  Within the bounding box a step of at least \<open>8 / 10 ^ 6\<close> degrees is not absorbed by the
  rounding of the sum: the coordinate advances by at least half the step.
\<close>

lemma fl_advance:
  assumes "0 \<le> x" "x \<le> 105" "8 / 10 ^ 6 \<le> L"
  shows "x + L / 2 \<le> fl (x + L)"
proof -
  define e where "e = (x + L) / 10 ^ 9"
  have "0 \<le> x + L" using assms by simp
  then have "x + L - e \<le> fl (x + L)" unfolding e_def by (rule fl_ge)
  moreover have "e \<le> L / 2" unfolding e_def using assms by simp
  ultimately show ?thesis by linarith
qed

lemma fl_lon_max_le: "fl lon_max \<le> 105"
  using fl_le[of lon_max] by (simp add: lon_max_def)

lemma fl_lat_max_le: "fl lat_max \<le> 105"
  using fl_le[of lat_max] by (simp add: lat_max_def)

lemma fl_lon_min_nonneg: "0 \<le> fl lon_min"
  by (rule fl_nonneg) (simp add: lon_min_def)

lemma fl_lat_min_nonneg: "0 \<le> fl lat_min"
  by (rule fl_nonneg) (simp add: lat_min_def)

lemma lon_loop_double_step:
  "lon_loop_double lon_step lat lon points =
     (if lon \<le> fl lon_max
      then lon_loop_double lon_step lat (fl (lon + lon_step))
             (if on_land lat lon then points @ [(fl (round6 lat), fl (round6 lon))] else points)
      else Some (Inr points))"
proof -
  obtain b where b: "point_in_any_polygon lat lon POLYGONS = Inr b"
    using point_in_any_polygon_total by blast
  show ?thesis
    by (subst lon_loop_double.simps) (simp add: b on_land_def)
qed

lemma lon_loop_double_returns:
  "fl lon_max < lon + real n * (L / 2) \<Longrightarrow> 0 \<le> lon \<Longrightarrow> 8 / 10 ^ 6 \<le> L \<Longrightarrow>
   \<exists>points'. lon_loop_double L lat lon points = Some (Inr points')"
proof (induction n arbitrary: lon points)
  case 0
  then have "\<not> lon \<le> fl lon_max" by simp
  then show ?case by (subst lon_loop_double_step) simp
next
  case (Suc n)
  show ?case
  proof (cases "lon \<le> fl lon_max")
    case False
    then show ?thesis by (subst lon_loop_double_step) simp
  next
    case True
    then have "lon \<le> 105" using fl_lon_max_le by linarith
    with Suc.prems have adv: "lon + L / 2 \<le> fl (lon + L)" by (intro fl_advance)
    have "lon + real (Suc n) * (L / 2) = (lon + L / 2) + real n * (L / 2)"
      by (simp add: algebra_simps)
    with Suc.prems(1) adv have a: "fl lon_max < fl (lon + L) + real n * (L / 2)" by linarith
    have b: "0 \<le> fl (lon + L)" using adv Suc.prems(2,3) by simp
    from Suc.IH[OF a b Suc.prems(3)] True show ?thesis
      by (subst lon_loop_double_step) simp
  qed
qed

lemma lon_loop_double_row_returns:
  assumes "8 / 10 ^ 6 \<le> L"
  shows "\<exists>points'. lon_loop_double L lat (fl lon_min) points = Some (Inr points')"
proof -
  have "0 < L / 2" using assms by simp
  then obtain m where "fl lon_max - fl lon_min < real m * (L / 2)"
    using ex_less_of_nat_mult by blast
  then have "fl lon_max < fl lon_min + real m * (L / 2)" by simp
  then show ?thesis using fl_lon_min_nonneg assms by (rule lon_loop_double_returns)
qed

lemma lat_loop_double_returns:
  "fl lat_max < lat + real n * (S / 2) \<Longrightarrow> 0 \<le> lat \<Longrightarrow> 8 / 10 ^ 6 \<le> S \<Longrightarrow>
   8 / 10 ^ 6 \<le> L \<Longrightarrow>
   \<exists>points'. lat_loop_double S L lat points = Some (Inr points')"
proof (induction n arbitrary: lat points)
  case 0
  then have "\<not> lat \<le> fl lat_max" by simp
  then show ?case by (subst lat_loop_double.simps) simp
next
  case (Suc n)
  show ?case
  proof (cases "lat \<le> fl lat_max")
    case False
    then show ?thesis by (subst lat_loop_double.simps) simp
  next
    case True
    obtain row where row: "lon_loop_double L lat (fl lon_min) points = Some (Inr row)"
      using lon_loop_double_row_returns[OF Suc.prems(4)] by blast
    from True have "lat \<le> 105" using fl_lat_max_le by linarith
    with Suc.prems have adv: "lat + S / 2 \<le> fl (lat + S)" by (intro fl_advance)
    have "lat + real (Suc n) * (S / 2) = (lat + S / 2) + real n * (S / 2)"
      by (simp add: algebra_simps)
    with Suc.prems(1) adv have a: "fl lat_max < fl (lat + S) + real n * (S / 2)" by linarith
    have b: "0 \<le> fl (lat + S)" using adv Suc.prems(2,3) by simp
    from Suc.IH[OF a b Suc.prems(3,4)] True row show ?thesis
      by (subst lat_loop_double.simps) simp
  qed
qed

lemma lat_loop_double_scan_returns:
  assumes "8 / 10 ^ 6 \<le> S" "8 / 10 ^ 6 \<le> L"
  shows "\<exists>points'. lat_loop_double S L (fl lat_min) [] = Some (Inr points')"
proof -
  have "0 < S / 2" using assms by simp
  then obtain n where "fl lat_max - fl lat_min < real n * (S / 2)"
    using ex_less_of_nat_mult by blast
  then have "fl lat_max < fl lat_min + real n * (S / 2)" by simp
  then show ?thesis using fl_lat_min_nonneg assms by (rule lat_loop_double_returns)
qed

lemma to_float_cases:
  "to_float v = Inl OverflowError \<or> (\<exists>s. to_float v = Inr s)"
  by (cases v) (simp_all add: to_float_def float_of_int_def)

lemma to_float_at_least_one_metre:
  assumes "at_least_one_metre v" "to_float v = Inr s"
  shows "999999999 / 10 ^ 9 \<le> s"
proof (cases v)
  case (PyInt i)
  define x :: real where "x = of_int i"
  define e where "e = x / 10 ^ 9"
  have x: "1 \<le> x" using assms(1) PyInt by (simp add: at_least_one_metre_def x_def)
  then have "x - e \<le> fl x" unfolding e_def by (intro fl_ge) simp
  moreover have "999999999 / 10 ^ 9 \<le> x - e" unfolding e_def using x by simp
  moreover have "s = fl x"
    using assms(2) PyInt by (simp add: to_float_def float_of_int_def x_def split: if_splits)
  ultimately show ?thesis by linarith
next
  case (PyFloat x)
  then show ?thesis using assms by (simp add: at_least_one_metre_def to_float_def)
qed

lemma lat_step_double_bound:
  assumes "999999999 / 10 ^ 9 \<le> s"
  shows "8 / 10 ^ 6 \<le> fl (s / 111320)"
proof -
  define x where "x = s / 111320"
  define e where "e = x / 10 ^ 9"
  have x: "89 / 10 ^ 7 \<le> x" unfolding x_def using assms by simp
  then have "x - e \<le> fl x" unfolding e_def by (intro fl_ge) simp
  moreover have "8 / 10 ^ 6 \<le> x - e" unfolding e_def using x by simp
  ultimately show ?thesis unfolding x_def by linarith
qed

lemma lon_divisor_double_bounds:
  assumes "1 / 2 \<le> c" "c \<le> 1"
  shows "55659 \<le> fl (111320 * c)" and "fl (111320 * c) \<le> 111321"
proof -
  define x where "x = 111320 * c"
  define e where "e = x / 10 ^ 9"
  have x: "55660 \<le> x" "x \<le> 111320" unfolding x_def using assms by simp_all
  then have "x - e \<le> fl x" "fl x \<le> x + e" unfolding e_def by (intro fl_ge fl_le; simp)+
  moreover have "e \<le> 1" unfolding e_def using x by simp
  ultimately show "55659 \<le> fl (111320 * c)" and "fl (111320 * c) \<le> 111321"
    unfolding x_def[symmetric] using x by linarith+
qed

lemma lon_step_double_bound:
  assumes "999999999 / 10 ^ 9 \<le> s" "0 < d" "d \<le> 111321"
  shows "8 / 10 ^ 6 \<le> fl (s / d)"
proof -
  define x where "x = s / d"
  define e where "e = x / 10 ^ 9"
  have "0 \<le> s" using assms(1) by simp
  then have "s / 111321 \<le> s / d" using assms(2,3) by (intro divide_left_mono) simp_all
  moreover have "89 / 10 ^ 7 \<le> s / 111321" using assms(1) by simp
  ultimately have x: "89 / 10 ^ 7 \<le> x" unfolding x_def by linarith
  then have "x - e \<le> fl x" unfolding e_def by (intro fl_ge) simp
  moreover have "8 / 10 ^ 6 \<le> x - e" unfolding e_def using x by simp
  ultimately show ?thesis unfolding x_def by linarith
qed

text \<open>
  Claim C8, amended. For every spacing of at least one metre that converts to a float (an
  int of at least \<open>1\<close> within the range of the doubles, or a float of at least \<open>1\<close>),
  \<open>generate_grid\<close> returns, and returns a list of points without raising. Both loops run
  on doubles; the cosine of the reference latitude that the library returns is only
  required to lie between \<open>1 / 2\<close> and \<open>1\<close>.
\<close>

theorem generate_grid_double_returns:
  assumes "at_least_one_metre spacing_m" and "to_float spacing_m \<noteq> Inl OverflowError"
    and "1 / 2 \<le> cos_center" and "cos_center \<le> 1"
  shows "\<exists>points. generate_grid_double cos_center spacing_m = Some (Inr points)"
proof -
  obtain s where s: "to_float spacing_m = Inr s"
    using to_float_cases[of spacing_m] assms(2) by blast
  have s1: "999999999 / 10 ^ 9 \<le> s"
    using assms(1) s by (rule to_float_at_least_one_metre)
  define d where "d = fl (111320 * cos_center)"
  have d: "0 < d" "d \<le> 111321"
    using lon_divisor_double_bounds[OF assms(3,4)] unfolding d_def by simp_all
  have "\<exists>points. lat_loop_double (fl (s / 111320)) (fl (s / d)) (fl lat_min) []
      = Some (Inr points)"
    using lat_step_double_bound[OF s1] lon_step_double_bound[OF s1 d]
    by (rule lat_loop_double_scan_returns)
  then show ?thesis
    using d(1) by (simp add: generate_grid_double_def s py_truediv_def d_def)
qed

lemma float_of_int_250: "float_of_int 250 = Inr (fl 250)"
  using fl_le[of 250] fl_nonneg[of 250] by (simp add: float_of_int_def)

theorem generate_grid_double_returns_witness:
  "at_least_one_metre (PyInt 250) \<and> to_float (PyInt 250) \<noteq> Inl OverflowError \<and>
   1 / 2 \<le> cos_center_double \<and> cos_center_double \<le> 1 \<and>
   (\<exists>points. generate_grid_double cos_center_double (PyInt 250) = Some (Inr points))"
  using generate_grid_double_returns[of "PyInt 250" cos_center_double] float_of_int_250
  by (simp add: at_least_one_metre_def to_float_def cos_center_double_def)

subsection \<open>Spacings for which the scan does not return a grid\<close>

text \<open>
  The double of \<open>103.59\<close> is \<open>7289498209364214 / 2 ^ 46\<close>, and the doubles near it are
  \<open>1 / 2 ^ 46\<close> apart: adding a step below \<open>1 / 2 ^ 47\<close> to it gives it back, so that
  \<open>lon += lon_step\<close> leaves \<open>lon\<close> at \<open>lon_min\<close> and the inner loop never ends.
\<close>

lemma fl_lon_min_absorbs:
  assumes "0 \<le> L" "L < 1 / 2 ^ 47"
  shows "fl (fl lon_min + L) = fl lon_min"
proof -
  define x where "x = 7289498209364214 / 2 ^ 46 + L"
  have scaled: "x * 2 ^ (52 - 6) = 7289498209364214 + L * 2 ^ 46"
    unfolding x_def by (simp add: algebra_simps)
  have small: "L * 2 ^ 46 < 1 / 2" using assms(2) by simp
  have "fl x = of_int (round_half_even (x * 2 ^ (52 - 6))) / 2 ^ (52 - 6)"
    using assms unfolding x_def by (intro fl_in_binade) simp_all
  moreover have "round_half_even (x * 2 ^ (52 - 6)) = 7289498209364214"
    unfolding scaled using assms(1) small by (intro round_half_even_nearest) simp_all
  ultimately have "fl x = 7289498209364214 / 2 ^ 46" by simp
  then show ?thesis unfolding x_def fl_lon_min .
qed

lemma fl_lon_min_le_max: "fl lon_min \<le> fl lon_max"
  using fl_ge[of lon_max] unfolding fl_lon_min by (simp add: lon_max_def)

lemma fl_lat_min_le_max: "fl lat_min \<le> fl lat_max"
  using fl_ge[of lat_max] fl_le[of lat_min] by (simp add: lat_max_def lat_min_def)

lemma lon_loop_double_stalls:
  assumes "0 \<le> L" "L < 1 / 2 ^ 47"
  shows "lon_loop_double L lat (fl lon_min) points = None"
proof (rule ccontr)
  assume "lon_loop_double L lat (fl lon_min) points \<noteq> None"
  then obtain r where r: "lon_loop_double L lat (fl lon_min) points = Some r" by auto
  have step: "a = L \<longrightarrow> c \<noteq> fl lon_min"
    if ih: "\<And>a' b' c' d' y'. f a' b' c' d' = Some y' \<Longrightarrow> a' = L \<longrightarrow> c' \<noteq> fl lon_min"
      and body: "(if c \<le> fl lon_max then
          (case point_in_any_polygon b c POLYGONS of
             Inl e \<Rightarrow> Some (Inl e)
           | Inr inside \<Rightarrow>
               f a b (fl (c + a)) (if inside then d @ [(fl (round6 b), fl (round6 c))] else d))
        else Some (Inr d)) = Some y"
    for f a b c d y
  proof (intro impI notI)
    assume a: "a = L" and c: "c = fl lon_min"
    obtain on where on: "point_in_any_polygon b c POLYGONS = Inr on"
      using point_in_any_polygon_total by blast
    have "c \<le> fl lon_max" unfolding c by (rule fl_lon_min_le_max)
    with body on
    have "f a b (fl (c + a)) (if on then d @ [(fl (round6 b), fl (round6 c))] else d) = Some y"
      by simp
    from ih[OF this] a have "fl (c + L) \<noteq> fl lon_min" by simp
    then show False unfolding c fl_lon_min_absorbs[OF assms] by simp
  qed
  have "L = L \<longrightarrow> fl lon_min \<noteq> fl lon_min"
    by (rule lon_loop_double.raw_induct[where P = "\<lambda>a b c d y. a = L \<longrightarrow> c \<noteq> fl lon_min",
          OF step r])
  then show False by simp
qed

lemma generate_grid_double_stalls:
  assumes "to_float v = Inr s" "0 \<le> s" "s \<le> 1 / 10 ^ 19"
  shows "generate_grid_double cos_center_double v = None"
proof -
  define d where "d = fl (111320 * cos_center_double)"
  have d: "55659 \<le> d" unfolding d_def
    by (rule lon_divisor_double_bounds) (simp_all add: cos_center_double_def)
  define x where "x = s / d"
  define e where "e = x / 10 ^ 9"
  have x0: "0 \<le> x" unfolding x_def using assms(2) d by simp
  have "s / d \<le> s / 55659" using assms(2) d by (intro divide_left_mono) simp_all
  moreover have "s / 55659 \<le> 1 / 10 ^ 23" using assms(3) by simp
  ultimately have x1: "x \<le> 1 / 10 ^ 23" unfolding x_def by linarith
  have "fl x \<le> x + e" unfolding e_def using x0 by (rule fl_le)
  moreover have "e \<le> 1 / 10 ^ 23" unfolding e_def using x1 by simp
  moreover have "(2 :: real) / 10 ^ 23 < 1 / 2 ^ 47" by simp
  ultimately have "fl x < 1 / 2 ^ 47" using x1 by linarith
  moreover have "0 \<le> fl x" using x0 by (rule fl_nonneg)
  ultimately have "lon_loop_double (fl x) (fl lat_min) (fl lon_min) [] = None"
    by (intro lon_loop_double_stalls)
  then have "lat_loop_double (fl (s / 111320)) (fl x) (fl lat_min) [] = None"
    using fl_lat_min_le_max by (subst lat_loop_double.simps) simp
  moreover have "d \<noteq> 0" using d by simp
  ultimately show ?thesis
    by (simp add: generate_grid_double_def assms(1) py_truediv_def d_def[symmetric] x_def)
qed

lemma float_of_int_beyond_range: "float_of_int (10 ^ 400) = Inl OverflowError"
proof -
  have "(10 :: real) ^ 400 - 10 ^ 400 / 10 ^ 9 \<le> fl (10 ^ 400)"
    by (rule fl_ge) simp
  moreover have "(2 :: real) ^ 1024 \<le> 10 ^ 400 - 10 ^ 400 / 10 ^ 9" by simp
  ultimately have "2 ^ 1024 \<le> \<bar>fl (10 ^ 400)\<bar>" by linarith
  then show ?thesis by (simp add: float_of_int_def)
qed

text \<open>
  Claim C8 as stated fails. With the spacing \<open>0\<close>, which \<open>--spacing 0\<close> passes, both steps
  are \<open>0\<close> and the call does not return; with the positive spacing \<open>1e-20\<close> the longitude
  step is absorbed by the rounding of \<open>lon + lon_step\<close> and the call does not return
  either; with the spacing \<open>10 ** 400\<close>, which \<open>--spacing\<close> parses, the division by
  \<open>111320.0\<close> raises \<open>OverflowError\<close>.
\<close>

theorem generate_grid_double_counterexample:
  "generate_grid_double cos_center_double (PyInt 0) = None \<and>
   generate_grid_double cos_center_double (PyFloat (fl (1 / 10 ^ 20))) = None \<and>
   generate_grid_double cos_center_double (PyInt (10 ^ 400)) = Some (Inl OverflowError)"
proof (intro conjI)
  show "generate_grid_double cos_center_double (PyInt 0) = None"
    by (rule generate_grid_double_stalls[where s = 0])
      (simp_all add: to_float_def float_of_int_def fl_zero)
  have "fl (1 / 10 ^ 20) \<le> 1 / 10 ^ 20 + 1 / 10 ^ 20 / 10 ^ 9"
    by (rule fl_le) simp
  then have "fl (1 / 10 ^ 20) \<le> 1 / 10 ^ 19" by simp
  moreover have "0 \<le> fl (1 / 10 ^ 20)" by (rule fl_nonneg) simp
  ultimately show "generate_grid_double cos_center_double (PyFloat (fl (1 / 10 ^ 20))) = None"
    by (intro generate_grid_double_stalls[where s = "fl (1 / 10 ^ 20)"])
      (simp_all add: to_float_def)
  show "generate_grid_double cos_center_double (PyInt (10 ^ 400)) = Some (Inl OverflowError)"
    unfolding generate_grid_double_def to_float_def py_number.case float_of_int_beyond_range
    by simp
qed

end
